theory Spec2Isabelle
  imports Complex_Main "HOL-Library.Product_Lexorder"
begin

section \<open>Cash-flow forecasting backend: the \<open>/forecast\<close> handler of \<open>backend/app.py\<close>\<close>

text \<open>
  The handler reads an uploaded table, standardises its column names, parses the
  \<open>Month\<close> column, coerces \<open>Inflow\<close> and \<open>Outflow\<close> to numbers, forecasts both
  series twelve months ahead and returns the historical rows followed by the forecast rows.

  The model follows the handler line by line. What the handler delegates to libraries
  is treated as follows:
  \<^item> reading the file (\<open>pd.read_csv\<close>, \<open>pd.read_excel\<close>), numeric coercion of one cell
    (\<open>pd.to_numeric\<close>), the two model fits of statsmodels, the rounding of float64
    arithmetic and the order in which the sort leaves rows of the same month are
    parameters, collected in the record \<open>env\<close>; every theorem holds for all of them;
  \<^item> \<open>pd.to_datetime\<close> with the two formats of the source, \<open>strftime\<close>, the month offset,
    column selection and assignment, \<open>dropna\<close>, \<open>sort_values\<close>, \<open>concat\<close>, \<open>replace\<close>
    and \<open>to_dict\<close> are written out;
  \<^item> a finite float64 is the rational number it denotes (the sign of a zero is not kept),
    NaN and the two infinities are values of their own, and every float operation
    rounds its exact result; an int64 is an integer, and its addition wraps around;
  \<^item> an exception is the string \<open>str(e)\<close> that the outer \<open>except\<close> reports.
\<close>

subsection \<open>Values\<close>

datatype fl = Fin rat | PInf | NInf | NaN

datatype date = Date (year: int) (month: nat) (day: nat)

text \<open>
  One cell of a DataFrame: a string, an int64, a float64, a timestamp, or missing (None,
  NaT).
\<close>

datatype cell = CStr string | CInt int | CNum fl | CDate date | CNull

text \<open>\<open>pd.isna\<close> on one cell.\<close>

fun isna :: "cell \<Rightarrow> bool" where
  "isna CNull = True"
| "isna (CNum NaN) = True"
| "isna _ = False"

text \<open>
  The result of a float64 operation whose exact value is \<open>q\<close>. \<open>rnd q\<close> is the float64
  nearest to \<open>q\<close>, and \<open>None\<close> when \<open>q\<close> is beyond the largest float64: the result is then
  the infinity of the sign of \<open>q\<close>.
\<close>

type_synonym rounding = "rat \<Rightarrow> rat option"

definition round_float :: "rounding \<Rightarrow> rat \<Rightarrow> fl" where
  "round_float rnd q = (case rnd q of Some r \<Rightarrow> Fin r | None \<Rightarrow> if 0 < q then PInf else NInf)"

text \<open>Float addition (IEEE 754): the rounded sum of two finite values.\<close>

fun fl_add :: "rounding \<Rightarrow> fl \<Rightarrow> fl \<Rightarrow> fl" where
  "fl_add rnd (Fin a) (Fin b) = round_float rnd (a + b)"
| "fl_add rnd NaN _ = NaN"
| "fl_add rnd _ NaN = NaN"
| "fl_add rnd PInf NInf = NaN"
| "fl_add rnd NInf PInf = NaN"
| "fl_add rnd PInf _ = PInf"
| "fl_add rnd _ PInf = PInf"
| "fl_add rnd NInf _ = NInf"
| "fl_add rnd _ NInf = NInf"

text \<open>int64 addition: the sum modulo \<open>2^64\<close>, in the range from \<open>-2^63\<close> to \<open>2^63 - 1\<close>.\<close>

definition wrap64 :: "int \<Rightarrow> int" where
  "wrap64 k = (k + 2 ^ 63) mod 2 ^ 64 - 2 ^ 63"

text \<open>
  \<open>np.round(x, 2)\<close> on a float: \<open>x\<close> is multiplied by 100, rounded to the nearest integer
  (a tie to the even one) and divided by 100; the product and the quotient are rounded
  as every float operation is.
\<close>

definition rint :: "rat \<Rightarrow> int" where
  "rint q = (let f = \<lfloor>q\<rfloor>; d = q - of_int f
             in if d < 1 / 2 then f else if 1 / 2 < d then f + 1
                else if even f then f else f + 1)"

fun np_round2 :: "rounding \<Rightarrow> fl \<Rightarrow> fl" where
  "np_round2 rnd (Fin q) =
     (case round_float rnd (q * 100) of
        Fin p \<Rightarrow> round_float rnd (of_int (rint p) / 100)
      | z \<Rightarrow> z)"
| "np_round2 rnd x = x"

text \<open>The dtype of a column: int64 when every cell is an int64, float64 when every cell is.\<close>

fun is_int :: "cell \<Rightarrow> bool" where
  "is_int (CInt k) = True"
| "is_int _ = False"

fun is_float :: "cell \<Rightarrow> bool" where
  "is_float (CNum x) = True"
| "is_float _ = False"

text \<open>\<open>astype(float64)\<close> on one cell of an int64 column.\<close>

fun as_float :: "rounding \<Rightarrow> cell \<Rightarrow> cell" where
  "as_float rnd (CInt k) = CNum (round_float rnd (of_int k))"
| "as_float rnd c = c"

text \<open>The value of a cell of a numeric column, as a float64 and as an int64.\<close>

fun float_value :: "rounding \<Rightarrow> cell \<Rightarrow> fl" where
  "float_value rnd (CNum x) = x"
| "float_value rnd (CInt k) = round_float rnd (of_int k)"
| "float_value rnd _ = NaN"

fun int_value :: "cell \<Rightarrow> int" where
  "int_value (CInt k) = k"
| "int_value _ = 0"

text \<open>
  \<open>a + b\<close> on two numeric columns: int64 addition when both are int64 columns, float64
  addition otherwise, an int64 column being converted first.
\<close>

definition add_columns :: "rounding \<Rightarrow> cell list \<Rightarrow> cell list \<Rightarrow> cell list" where
  "add_columns rnd xs ys =
     (if list_all is_int xs \<and> list_all is_int ys
      then map2 (\<lambda>x y. CInt (wrap64 (int_value x + int_value y))) xs ys
      else map2 (\<lambda>x y. CNum (fl_add rnd (float_value rnd x) (float_value rnd y))) xs ys)"

subsection \<open>Strings\<close>

text \<open>\<open>str.endswith\<close>.\<close>

definition endswith :: "string \<Rightarrow> string \<Rightarrow> bool" where
  "endswith s suf = (length suf \<le> length s \<and> drop (length s - length suf) s = suf)"

text \<open>
  \<open>str.strip()\<close>: the whitespace characters are removed at both ends. A character is a
  code point below 256; the whitespace among them is the ASCII whitespace, U+0085 and
  U+00A0.
\<close>

definition is_space :: "char \<Rightarrow> bool" where
  "is_space c = (c \<in> set [CHR 0x09, CHR 0x0A, CHR 0x0B, CHR 0x0C, CHR 0x0D,
                            CHR 0x1C, CHR 0x1D, CHR 0x1E, CHR 0x1F, CHR 0x20,
                            CHR 0x85, CHR 0xA0])"

definition strip :: "string \<Rightarrow> string" where
  "strip s = rev (dropWhile is_space (rev (dropWhile is_space s)))"

fun index_of :: "'a \<Rightarrow> 'a list \<Rightarrow> nat option" where
  "index_of x [] = None"
| "index_of x (y # ys) = (if x = y then Some 0 else map_option Suc (index_of x ys))"

definition is_digit :: "char \<Rightarrow> bool" where
  "is_digit c = (c \<in> set ''0123456789'')"

definition digit_val :: "char \<Rightarrow> nat" where
  "digit_val c = (case index_of c ''0123456789'' of Some n \<Rightarrow> n | None \<Rightarrow> 0)"

text \<open>\<open>str.lower\<close> on one ASCII character.\<close>

definition lower :: "char \<Rightarrow> char" where
  "lower c = (case index_of c ''ABCDEFGHIJKLMNOPQRSTUVWXYZ'' of
                Some k \<Rightarrow> ''abcdefghijklmnopqrstuvwxyz'' ! k
              | None \<Rightarrow> c)"

subsection \<open>Dates: \<open>strptime\<close>, \<open>strftime\<close>, month arithmetic\<close>

definition month_abbr :: "string list" where
  "month_abbr = [''Jan'', ''Feb'', ''Mar'', ''Apr'', ''May'', ''Jun'',
                 ''Jul'', ''Aug'', ''Sep'', ''Oct'', ''Nov'', ''Dec'']"

text \<open>\<open>%b\<close> matches an abbreviated month name whatever its case.\<close>

definition month_of_abbr :: "string \<Rightarrow> nat option" where
  "month_of_abbr s =
     map_option Suc
       (index_of (map lower s)
          [''jan'', ''feb'', ''mar'', ''apr'', ''may'', ''jun'',
           ''jul'', ''aug'', ''sep'', ''oct'', ''nov'', ''dec''])"

definition is_leap :: "int \<Rightarrow> bool" where
  "is_leap y = (y mod 4 = 0 \<and> (y mod 100 \<noteq> 0 \<or> y mod 400 = 0))"

definition days_in_month :: "int \<Rightarrow> nat \<Rightarrow> nat" where
  "days_in_month y m =
     (if m = 2 then (if is_leap y then 29 else 28)
      else if m = 4 \<or> m = 6 \<or> m = 9 \<or> m = 11 then 30 else 31)"

text \<open>The directives of a format string; the source uses \<open>%y\<close>, \<open>%b\<close> and \<open>%d\<close>.\<close>

datatype directive = Lit char | Dir_y | Dir_b | Dir_d

fun compile_format :: "string \<Rightarrow> directive list" where
  "compile_format [] = []"
| "compile_format [c] = [Lit c]"
| "compile_format (c # e # r) =
     (if c = CHR ''%''
      then (if e = CHR ''y'' then Dir_y else if e = CHR ''b'' then Dir_b
            else if e = CHR ''d'' then Dir_d else Lit e) # compile_format r
      else Lit c # compile_format (e # r))"

text \<open>
  The fields found so far: two-digit year, month, day. \<open>%d\<close> is the regular expression
  \<open>3[0-1]|[1-2]\\d|0[1-9]|[1-9]| [1-9]\<close>: its alternatives are tried in this order, and the
  next one is tried when the rest of the string does not match the rest of the format.
\<close>

type_synonym fields = "nat option \<times> nat option \<times> nat option"

definition day_alternatives :: "string \<Rightarrow> (nat \<times> string) list" where
  "day_alternatives s =
     (case s of
        a # b # r \<Rightarrow>
          (if a = CHR ''3'' \<and> (b = CHR ''0'' \<or> b = CHR ''1'') then [(30 + digit_val b, r)]
           else if (a = CHR ''1'' \<or> a = CHR ''2'') \<and> is_digit b then [(10 * digit_val a + digit_val b, r)]
           else if a = CHR ''0'' \<and> is_digit b \<and> b \<noteq> CHR ''0'' then [(digit_val b, r)]
           else [])
      | _ \<Rightarrow> [])
     @ (case s of
          a # r \<Rightarrow> (if is_digit a \<and> a \<noteq> CHR ''0'' then [(digit_val a, r)] else [])
        | _ \<Rightarrow> [])
     @ (case s of
          a # b # r \<Rightarrow> (if a = CHR '' '' \<and> is_digit b \<and> b \<noteq> CHR ''0'' then [(digit_val b, r)] else [])
        | _ \<Rightarrow> [])"

fun first_some :: "('a \<Rightarrow> 'b option) \<Rightarrow> 'a list \<Rightarrow> 'b option" where
  "first_some f [] = None"
| "first_some f (x # xs) = (case f x of Some y \<Rightarrow> Some y | None \<Rightarrow> first_some f xs)"

fun match_format :: "directive list \<Rightarrow> string \<Rightarrow> fields \<Rightarrow> fields option" where
  "match_format [] s f = (if s = [] then Some f else None)"
| "match_format (Lit c # ds) s f =
     (case s of x # r \<Rightarrow> if lower x = lower c then match_format ds r f else None | [] \<Rightarrow> None)"
| "match_format (Dir_y # ds) s (y, m, d) =
     (case s of
        a # b # r \<Rightarrow> if is_digit a \<and> is_digit b
                     then match_format ds r (Some (10 * digit_val a + digit_val b), m, d) else None
      | _ \<Rightarrow> None)"
| "match_format (Dir_b # ds) s (y, m, d) =
     (case s of
        a # b # c # r \<Rightarrow> (case month_of_abbr [a, b, c] of
                           Some k \<Rightarrow> match_format ds r (y, Some k, d) | None \<Rightarrow> None)
      | _ \<Rightarrow> None)"
| "match_format (Dir_d # ds) s (y, m, d) =
     first_some (\<lambda>(k, r). match_format ds r (y, m, Some k)) (day_alternatives s)"

text \<open>
  \<open>strptime\<close>: the whole string must match; a two-digit year up to 68 is in 2000..2068,
  a later one in 1969..1999; a missing year is 1900, a missing month or day is 1; a day
  the month does not have is an error.
\<close>

definition strptime :: "string \<Rightarrow> string \<Rightarrow> date option" where
  "strptime fmt s =
     (case match_format (compile_format fmt) s (None, None, None) of
        None \<Rightarrow> None
      | Some (y, m, d) \<Rightarrow>
          (let yy = (case y of None \<Rightarrow> 1900 | Some v \<Rightarrow> if v \<le> 68 then 2000 + int v else 1900 + int v);
               mm = (case m of None \<Rightarrow> 1 | Some v \<Rightarrow> v);
               dd = (case d of None \<Rightarrow> 1 | Some v \<Rightarrow> v)
           in if dd \<le> days_in_month yy mm then Some (Date yy mm dd) else None))"

text \<open>\<open>strftime("%b-%Y")\<close>; the years of a pandas timestamp have four digits.\<close>

definition digit_char :: "int \<Rightarrow> char" where
  "digit_char n = ''0123456789'' ! nat (n mod 10)"

definition strftime_bY :: "date \<Rightarrow> string" where
  "strftime_bY dt =
     (month_abbr ! (month dt - 1)) @ ''-'' @
     [digit_char (year dt div 1000), digit_char (year dt div 100),
      digit_char (year dt div 10), digit_char (year dt)]"

text \<open>
  \<open>ts + pd.offsets.MonthBegin(1)\<close>: the first day of the next month, from any day of the
  month.
\<close>

definition month_begin_next :: "date \<Rightarrow> date" where
  "month_begin_next dt =
     (if month dt = 12 then Date (year dt + 1) 1 1 else Date (year dt) (month dt + 1) 1)"

text \<open>
  \<open>pd.date_range(start, periods=n, freq="MS")\<close>: \<open>n\<close> month starts, the first one the
  start itself when it is a month start and the next month start otherwise.
\<close>

fun month_starts :: "date \<Rightarrow> nat \<Rightarrow> date list" where
  "month_starts dt 0 = []"
| "month_starts dt (Suc n) = dt # month_starts (month_begin_next dt) n"

definition date_range_MS :: "date \<Rightarrow> nat \<Rightarrow> date list" where
  "date_range_MS start n = month_starts (if day start = 1 then start else month_begin_next start) n"

subsection \<open>Exceptions\<close>

text \<open>
  A computation that may raise returns \<open>Inl\<close> of the exception's text. \<open>and_then\<close> runs
  the next statements when the previous one did not raise.
\<close>

fun and_then :: "string + 'a \<Rightarrow> ('a \<Rightarrow> string + 'b) \<Rightarrow> string + 'b" where
  "and_then (Inl e) f = Inl e"
| "and_then (Inr x) f = f x"

text \<open>\<open>str(KeyError(name))\<close> is the name in single quotes.\<close>

definition key_error :: "string \<Rightarrow> string" where
  "key_error name = [CHR 0x27] @ name @ [CHR 0x27]"

subsection \<open>DataFrames\<close>

text \<open>
  A DataFrame is the list of its column names and the list of its rows; a row gives the
  cell at each column position. Column names need not be distinct.
\<close>

type_synonym row = "nat \<Rightarrow> cell"

text \<open>The row that holds the given cells, in this order.\<close>

definition row_of :: "cell list \<Rightarrow> row" where
  "row_of cs = (\<lambda>j. if j < length cs then cs ! j else CNull)"

record frame =
  columns :: "string list"
  data :: "row list"

text \<open>The positions of the columns called \<open>name\<close>.\<close>

definition locs :: "string \<Rightarrow> string list \<Rightarrow> nat list" where
  "locs name cols = [j \<leftarrow> [0..<length cols]. cols ! j = name]"

text \<open>
  \<open>df[name]\<close>: KeyError when no column has the name, a Series when one has, a DataFrame
  of all of them when several have.
\<close>

datatype selected = Series "cell list" | DataFrame "cell list list"

definition getitem :: "string \<Rightarrow> frame \<Rightarrow> string + selected" where
  "getitem name df =
     (case locs name (columns df) of
        [] \<Rightarrow> Inl (key_error name)
      | [j] \<Rightarrow> Inr (Series (map (\<lambda>r. r j) (data df)))
      | js \<Rightarrow> Inr (DataFrame (map (\<lambda>j. map (\<lambda>r. r j) (data df)) js)))"

text \<open>
  \<open>df[name]\<close> under an operation on a Series; \<open>err\<close> is what that operation raises on a
  DataFrame.
\<close>

definition column :: "string \<Rightarrow> string \<Rightarrow> frame \<Rightarrow> string + cell list" where
  "column err name df =
     and_then (getitem name df)
       (\<lambda>sel. case sel of Series xs \<Rightarrow> Inr xs | DataFrame _ \<Rightarrow> Inl err)"

definition no_tolist :: string where
  "no_tolist = [CHR 0x27] @ ''DataFrame'' @ [CHR 0x27] @ '' object has no attribute '' @
               [CHR 0x27] @ ''tolist'' @ [CHR 0x27]"

definition not_one_dimensional :: string where
  "not_one_dimensional = ''arg must be a list, tuple, 1-d array, or Series''"

text \<open>
  \<open>df[name] = values\<close>: every column of that name is overwritten; a new column is appended
  when there is none.
\<close>

definition setitem :: "string \<Rightarrow> cell list \<Rightarrow> frame \<Rightarrow> frame" where
  "setitem name vs df =
     (if name \<in> set (columns df)
      then df\<lparr>data := map2 (\<lambda>r v. (\<lambda>j. if j \<in> set (locs name (columns df)) then v else r j))
                          (data df) vs\<rparr>
      else \<lparr>columns = columns df @ [name],
            data = map2 (\<lambda>r v. r(length (columns df) := v)) (data df) vs\<rparr>)"

text \<open>\<open>df.dropna(subset=names)\<close>: the rows with no missing cell in the named columns.\<close>

definition dropna_subset :: "string list \<Rightarrow> frame \<Rightarrow> frame" where
  "dropna_subset names df =
     df\<lparr>data := [r \<leftarrow> data df.
                   list_all (\<lambda>n. list_all (\<lambda>j. \<not> isna (r j)) (locs n (columns df))) names]\<rparr>"

text \<open>
  \<open>df.sort_values(name)\<close> on a column of timestamps: ascending, a missing one last. The
  sort (quicksort) is not stable: where it leaves the rows of the same timestamp depends
  on the whole column. \<open>ties keys p\<close> is the rank of the row at position \<open>p\<close> among the
  rows with its timestamp, in a column with the timestamps \<open>keys\<close>; rows of the same rank
  keep their order.
\<close>

type_synonym order_key = "nat \<times> int \<times> nat \<times> nat"

definition sort_key_of :: "cell \<Rightarrow> order_key" where
  "sort_key_of c = (case c of CDate d \<Rightarrow> (0, year d, month d, day d) | _ \<Rightarrow> (1, 0, 0, 0))"

definition sorted_rows :: "(order_key list \<Rightarrow> nat \<Rightarrow> nat) \<Rightarrow> nat \<Rightarrow> row list \<Rightarrow> row list" where
  "sorted_rows ties j rows =
     map snd (sort_key (\<lambda>pr. (sort_key_of (snd pr j),
                               ties (map (\<lambda>r. sort_key_of (r j)) rows) (fst pr)))
                (zip [0..<length rows] rows))"

definition sort_values :: "(order_key list \<Rightarrow> nat \<Rightarrow> nat) \<Rightarrow> string \<Rightarrow> frame \<Rightarrow> frame" where
  "sort_values ties name df =
     (case locs name (columns df) of
        [] \<Rightarrow> df
      | j # _ \<Rightarrow> df\<lparr>data := sorted_rows ties j (data df)\<rparr>)"

text \<open>\<open>pd.DataFrame(dict)\<close> from columns of the same length.\<close>

definition make_frame :: "(string \<times> cell list) list \<Rightarrow> string + frame" where
  "make_frame cs =
     (case cs of
        [] \<Rightarrow> Inr \<lparr>columns = [], data = []\<rparr>
      | c # _ \<Rightarrow>
          if \<not> list_all (\<lambda>x. length (snd x) = length (snd c)) cs
          then Inl ''All arrays must be of the same length''
          else Inr \<lparr>columns = map fst cs,
                    data = map (\<lambda>i. row_of (map (\<lambda>x. snd x ! i) cs)) [0..<length (snd c)]\<rparr>)"

text \<open>
  \<open>pd.concat([a, b], ignore_index=True)\<close>: the columns of \<open>a\<close>, then those of \<open>b\<close> that
  \<open>a\<close> does not have; the rows of \<open>a\<close>, then those of \<open>b\<close>, each with a missing cell in the
  columns its frame does not have. Frames with a repeated column name cannot be aligned.
  An int64 column of one frame becomes a float64 column when the other frame (which has
  rows, where the handler concatenates) has no such column, or a float64 column of that
  name: \<open>upcast\<close>.
\<close>

definition reindex :: "string list \<Rightarrow> string list \<Rightarrow> row \<Rightarrow> row" where
  "reindex old new r =
     (\<lambda>j. if j < length new
          then (case index_of (new ! j) old of Some i \<Rightarrow> r i | None \<Rightarrow> CNull)
          else CNull)"

definition upcast_column :: "frame \<Rightarrow> frame \<Rightarrow> nat \<Rightarrow> bool" where
  "upcast_column a b j =
     (j < length (columns a) \<and> list_all (\<lambda>r. is_int (r j)) (data a) \<and>
      (case index_of (columns a ! j) (columns b) of
         None \<Rightarrow> True
       | Some k \<Rightarrow> list_all (\<lambda>r. is_float (r k)) (data b)))"

definition upcast :: "rounding \<Rightarrow> frame \<Rightarrow> frame \<Rightarrow> row list" where
  "upcast rnd a b =
     map (\<lambda>r. (\<lambda>j. if upcast_column a b j then as_float rnd (r j) else r j)) (data a)"

definition concat_frames :: "rounding \<Rightarrow> frame \<Rightarrow> frame \<Rightarrow> string + frame" where
  "concat_frames rnd a b =
     (if \<not> distinct (columns a) \<or> \<not> distinct (columns b)
      then Inl ''Reindexing only valid with uniquely valued Index objects''
      else (let cols = columns a @ [c \<leftarrow> columns b. c \<notin> set (columns a)]
            in Inr \<lparr>columns = cols,
                    data = map (reindex (columns a) cols) (upcast rnd a b) @
                           map (reindex (columns b) cols) (upcast rnd b a)\<rparr>))"

text \<open>\<open>df.replace([np.nan, np.inf, -np.inf], None)\<close>.\<close>

fun sanitize :: "cell \<Rightarrow> cell" where
  "sanitize (CNum NaN) = CNull"
| "sanitize (CNum PInf) = CNull"
| "sanitize (CNum NInf) = CNull"
| "sanitize c = c"

definition replace_nonfinite :: "frame \<Rightarrow> frame" where
  "replace_nonfinite df = df\<lparr>data := map (\<lambda>r. (\<lambda>j. sanitize (r j))) (data df)\<rparr>"

text \<open>\<open>df.dropna(how="all")\<close>: the rows with a cell that is not missing.\<close>

definition dropna_all :: "frame \<Rightarrow> frame" where
  "dropna_all df =
     df\<lparr>data := [r \<leftarrow> data df. \<not> list_all (\<lambda>j. isna (r j)) [0..<length (columns df)]]\<rparr>"

text \<open>\<open>df.to_dict(orient="records")\<close>: one list of (column, cell) pairs per row.\<close>

type_synonym record_dict = "(string \<times> cell) list"

definition to_dict_records :: "frame \<Rightarrow> record_dict list" where
  "to_dict_records df =
     map (\<lambda>r. map (\<lambda>j. (columns df ! j, r j)) [0..<length (columns df)]) (data df)"

subsection \<open>The request, the libraries, the response\<close>

text \<open>The uploaded file \<open>request.files.get("file")\<close>: its name and its content.\<close>

record 'c upload =
  filename :: string
  content :: 'c

text \<open>
  What the handler calls in pandas and statsmodels: the two readers; \<open>pd.to_numeric\<close>
  with \<open>errors="coerce"\<close> on one cell (an integer, or a float, which is NaN when the cell
  is no number); fitting the additive-trend model and the simple model to a series
  (month, value). A fit that succeeds gives the point forecast \<open>k\<close> steps ahead, for
  \<open>k = 1, 2, ...\<close>; \<open>Inl\<close> is the exception raised by the fit or by its \<open>forecast\<close>. With
  them, the rounding of float64 arithmetic and the ranks that the sort gives to rows of
  the same timestamp.
\<close>

datatype num = Int64 int | Float64 fl

type_synonym series = "(cell \<times> cell) list"

record 'c env =
  read_csv :: "'c \<Rightarrow> string + frame"
  read_excel :: "'c \<Rightarrow> string + frame"
  to_numeric :: "cell \<Rightarrow> num"
  fit_holt :: "series \<Rightarrow> string + (nat \<Rightarrow> fl)"
  fit_ses :: "series \<Rightarrow> string + (nat \<Rightarrow> fl)"
  nearest_float :: rounding
  tie_order :: "order_key list \<Rightarrow> nat \<Rightarrow> nat"

text \<open>
  The response: the JSON object of a success (\<open>rows_received\<close>, \<open>forecast\<close>) with status
  200, or an error message with its status code.
\<close>

datatype response = Success nat "record_dict list" | Failure nat string

subsection \<open>Step 1: the uploaded file\<close>

text \<open>\<open>if not file\<close>: a file storage object is false when it has no file name.\<close>

definition file_given :: "'c upload option \<Rightarrow> bool" where
  "file_given file = (case file of None \<Rightarrow> False | Some f \<Rightarrow> filename f \<noteq> [])"

text \<open>Lines 24-29; \<open>None\<close> is the \<open>else\<close> branch, where nothing is read.\<close>

definition read_table :: "'c env \<Rightarrow> 'c upload \<Rightarrow> (string + frame) option" where
  "read_table env f =
     (if endswith (filename f) ''.csv'' then Some (read_csv env (content f))
      else if endswith (filename f) ''.xlsx'' \<or> endswith (filename f) ''.xls''
      then Some (read_excel env (content f))
      else None)"

subsection \<open>Step 2: column names\<close>

definition rename_column :: "string \<Rightarrow> string" where
  "rename_column c =
     (if c = ''Months'' then ''Month''
      else if c = ''Cash Inflow'' then ''Inflow''
      else if c = ''Cash Outflow'' then ''Outflow''
      else if c = ''Net Cash Flow'' then ''Net_Cashflow''
      else c)"

definition standardize_columns :: "frame \<Rightarrow> frame" where
  "standardize_columns df = df\<lparr>columns := map (\<lambda>c. rename_column (strip c)) (columns df)\<rparr>"

subsection \<open>Step 3: months\<close>

text \<open>
  \<open>pd.to_datetime(..., format=fmt, errors="coerce")\<close> on one cell: a string is parsed, a
  timestamp is kept, a missing cell stays missing, and a number, read as its decimal
  text, matches neither format of the source.
\<close>

fun to_datetime :: "string \<Rightarrow> cell \<Rightarrow> cell" where
  "to_datetime fmt (CStr s) = (case strptime fmt s of Some d \<Rightarrow> CDate d | None \<Rightarrow> CNull)"
| "to_datetime fmt (CDate d) = CDate d"
| "to_datetime fmt (CNum x) = CNull"
| "to_datetime fmt (CInt k) = CNull"
| "to_datetime fmt CNull = CNull"

text \<open>Lines 43-50. Line 43 prints the first cells of \<open>df["Month"]\<close>.\<close>

definition parse_months :: "'c env \<Rightarrow> frame \<Rightarrow> string + frame" where
  "parse_months env df =
     and_then (column no_tolist ''Month'' df) (\<lambda>shown.
     and_then (column not_one_dimensional ''Month'' df) (\<lambda>raw.
     let df1 = setitem ''Month'' (map (to_datetime ''%y-%b'') raw) df in
     and_then (column not_one_dimensional ''Month'' df1) (\<lambda>parsed.
     and_then (if list_all isna parsed
               then and_then (column not_one_dimensional ''Month'' df1) (\<lambda>again.
                    Inr (setitem ''Month'' (map (to_datetime ''%d-%b-%y'') again) df1))
               else Inr df1) (\<lambda>df2.
     Inr (sort_values (tie_order env) ''Month'' (dropna_subset [''Month''] df2))))))"

subsection \<open>Step 4: numbers\<close>

text \<open>
  \<open>pd.to_numeric(column, errors="coerce")\<close>: an int64 column when every cell is read as
  an integer, a float64 column otherwise.
\<close>

fun num_cell :: "num \<Rightarrow> cell" where
  "num_cell (Int64 k) = CInt k"
| "num_cell (Float64 x) = CNum x"

definition to_numeric_column :: "'c env \<Rightarrow> cell list \<Rightarrow> cell list" where
  "to_numeric_column env xs =
     (let cs = map (\<lambda>c. num_cell (to_numeric env c)) xs
      in if list_all is_int cs then cs else map (as_float (nearest_float env)) cs)"

text \<open>Lines 53-56.\<close>

definition convert_numerics :: "'c env \<Rightarrow> frame \<Rightarrow> string + frame" where
  "convert_numerics env df =
     and_then (column not_one_dimensional ''Inflow'' df) (\<lambda>raw_in.
     let df1 = setitem ''Inflow'' (to_numeric_column env raw_in) df in
     and_then (column not_one_dimensional ''Outflow'' df1) (\<lambda>raw_out.
     let df2 = setitem ''Outflow'' (to_numeric_column env raw_out) df1 in
     and_then (column not_one_dimensional ''Inflow'' df2) (\<lambda>inflow.
     and_then (column not_one_dimensional ''Outflow'' df2) (\<lambda>outflow.
     let df3 = setitem ''Net_Cashflow'' (add_columns (nearest_float env) inflow outflow) df2 in
     Inr (dropna_subset [''Inflow'', ''Outflow''] df3)))))"

subsection \<open>Step 5: the two forecasts\<close>

text \<open>\<open>fit.forecast(n)\<close>: the point forecasts 1 to \<open>n\<close> steps ahead.\<close>

definition forecast_steps :: "(nat \<Rightarrow> fl) \<Rightarrow> nat \<Rightarrow> fl list" where
  "forecast_steps fit n = map fit [1..<Suc n]"

text \<open>Lines 62-71: the additive-trend model, and the simple model when that raises.\<close>

definition safe_forecast :: "'c env \<Rightarrow> series \<Rightarrow> string + fl list" where
  "safe_forecast env s =
     (case fit_holt env s of
        Inr fit \<Rightarrow> Inr (forecast_steps fit 12)
      | Inl e \<Rightarrow> and_then (fit_ses env s) (\<lambda>fit. Inr (forecast_steps fit 12)))"

subsection \<open>Step 6: the forecast frame\<close>

text \<open>\<open>df["Month"].iloc[-1]\<close> and \<open>pd.Timestamp\<close> of it.\<close>

definition iloc_last :: "cell list \<Rightarrow> string + cell" where
  "iloc_last xs = (if xs = [] then Inl ''single positional indexer is out-of-bounds''
                   else Inr (last xs))"

definition timestamp :: "cell \<Rightarrow> string + date" where
  "timestamp c = (case c of CDate d \<Rightarrow> Inr d | _ \<Rightarrow> Inl ''Neither `start` nor `end` can be NaT'')"

text \<open>Lines 81-96 and 103-105.\<close>

definition build_forecast_df :: "rounding \<Rightarrow> date \<Rightarrow> fl list \<Rightarrow> fl list \<Rightarrow> string + frame" where
  "build_forecast_df rnd last_date inflow_forecast outflow_forecast =
     (let forecast_index = date_range_MS (month_begin_next last_date) 12 in
      and_then (make_frame
                  [(''Month'', map (\<lambda>d. CStr (strftime_bY d)) forecast_index),
                   (''Inflow_Forecast'', map (\<lambda>x. CNum (np_round2 rnd x)) inflow_forecast),
                   (''Outflow_Forecast'', map (\<lambda>x. CNum (np_round2 rnd x)) outflow_forecast)])
        (\<lambda>f0.
      and_then (column not_one_dimensional ''Inflow_Forecast'' f0) (\<lambda>a.
      and_then (column not_one_dimensional ''Outflow_Forecast'' f0) (\<lambda>b.
      let f1 = setitem ''Net_Cashflow_Forecast'' (add_columns rnd a b) f0 in
      and_then (column not_one_dimensional ''Inflow_Forecast'' f1) (\<lambda>x.
      let f2 = setitem ''Inflow'' x f1 in
      and_then (column not_one_dimensional ''Outflow_Forecast'' f2) (\<lambda>y.
      let f3 = setitem ''Outflow'' y f2 in
      and_then (column not_one_dimensional ''Net_Cashflow_Forecast'' f3) (\<lambda>z.
      Inr (setitem ''Net_Cashflow'' z f3))))))))"

subsection \<open>Step 7: history and forecast together\<close>

fun display_month :: "cell \<Rightarrow> cell" where
  "display_month (CDate d) = CStr (strftime_bY d)"
| "display_month _ = CNull"

text \<open>Lines 99-110 and \<open>to_dict\<close> of line 118.\<close>

definition combine :: "rounding \<Rightarrow> frame \<Rightarrow> frame \<Rightarrow> string + record_dict list" where
  "combine rnd df forecast_df =
     and_then (column not_one_dimensional ''Month'' df) (\<lambda>months.
     let df_display = setitem ''Month'' (map display_month months) df in
     and_then (concat_frames rnd df_display forecast_df) (\<lambda>combined.
     Inr (to_dict_records (dropna_all (replace_nonfinite combined)))))"

subsection \<open>The handler\<close>

text \<open>Lines 73-74: \<open>pd.Series(df[name].values, index=df["Month"])\<close>.\<close>

definition make_series :: "string \<Rightarrow> frame \<Rightarrow> string + series" where
  "make_series name df =
     and_then (column not_one_dimensional name df) (\<lambda>vals.
     and_then (column not_one_dimensional ''Month'' df) (\<lambda>months.
     Inr (zip months vals)))"

text \<open>Lines 73-119, after the check of the number of rows.\<close>

definition forecast_rows :: "'c env \<Rightarrow> frame \<Rightarrow> string + record_dict list" where
  "forecast_rows env df =
     and_then (make_series ''Inflow'' df) (\<lambda>inflow_series.
     and_then (make_series ''Outflow'' df) (\<lambda>outflow_series.
     and_then (safe_forecast env inflow_series) (\<lambda>inflow_forecast.
     and_then (safe_forecast env outflow_series) (\<lambda>outflow_forecast.
     and_then (column not_one_dimensional ''Month'' df) (\<lambda>months.
     and_then (iloc_last months) (\<lambda>last_cell.
     and_then (timestamp last_cell) (\<lambda>last_date.
     and_then (build_forecast_df (nearest_float env) last_date inflow_forecast outflow_forecast)
       (\<lambda>forecast_df.
     combine (nearest_float env) df forecast_df))))))))"

text \<open>Steps 2 to 4 on a table that was read.\<close>

definition clean :: "'c env \<Rightarrow> frame \<Rightarrow> string + frame" where
  "clean env df0 =
     and_then (parse_months env (standardize_columns df0)) (\<lambda>df. convert_numerics env df)"

text \<open>The body of the \<open>try\<close>.\<close>

definition forecast_body :: "'c env \<Rightarrow> 'c upload option \<Rightarrow> string + response" where
  "forecast_body env file =
     (if \<not> file_given file then Inr (Failure 400 ''No file uploaded'')
      else (case read_table env (the file) of
              None \<Rightarrow> Inr (Failure 400 ''Unsupported file format'')
            | Some loaded \<Rightarrow>
                and_then loaded (\<lambda>df0.
                and_then (clean env df0) (\<lambda>df.
                if length (data df) < 3
                then Inr (Failure 400 ''Not enough valid rows for forecasting'')
                else and_then (forecast_rows env df) (\<lambda>records.
                     Inr (Success (length (data df)) records))))))"

text \<open>The handler: an exception of the body is reported with status 500.\<close>

definition forecast :: "'c env \<Rightarrow> 'c upload option \<Rightarrow> response" where
  "forecast env file = (case forecast_body env file of Inl e \<Rightarrow> Failure 500 e | Inr r \<Rightarrow> r)"

subsection \<open>The frame after each step, row by row\<close>

text \<open>
  After line 46, with the \<open>Month\<close> column at position \<open>m\<close>: every month cell is the
  result of the first format.
\<close>

definition primary_parsed :: "nat \<Rightarrow> frame \<Rightarrow> frame" where
  "primary_parsed m df = df\<lparr>data := map (\<lambda>r. r(m := to_datetime ''%y-%b'' (r m))) (data df)\<rparr>"

text \<open>
  After lines 53-55, with \<open>Inflow\<close> at position \<open>i\<close> and \<open>Outflow\<close> at position \<open>w\<close>: the
  columns, and one row.
\<close>

definition net_columns :: "string list \<Rightarrow> string list" where
  "net_columns cols = (if ''Net_Cashflow'' \<in> set cols then cols else cols @ [''Net_Cashflow''])"

definition int_column :: "'c env \<Rightarrow> nat \<Rightarrow> row list \<Rightarrow> bool" where
  "int_column env j rows = list_all (\<lambda>r. is_int (num_cell (to_numeric env (r j)))) rows"

definition coerced :: "'c env \<Rightarrow> bool \<Rightarrow> cell \<Rightarrow> cell" where
  "coerced env ints c =
     (if ints then num_cell (to_numeric env c)
      else as_float (nearest_float env) (num_cell (to_numeric env c)))"

definition net_cell :: "rounding \<Rightarrow> bool \<Rightarrow> cell \<Rightarrow> cell \<Rightarrow> cell" where
  "net_cell rnd ints a b =
     (if ints then CInt (wrap64 (int_value a + int_value b))
      else CNum (fl_add rnd (float_value rnd a) (float_value rnd b)))"

definition numeric_row :: "'c env \<Rightarrow> string list \<Rightarrow> nat \<Rightarrow> nat \<Rightarrow> bool \<Rightarrow> bool \<Rightarrow> row \<Rightarrow> row" where
  "numeric_row env cols i w ii ww r =
     (\<lambda>k. if k \<in> set (locs ''Net_Cashflow'' (net_columns cols))
          then net_cell (nearest_float env) (ii \<and> ww) (coerced env ii (r i)) (coerced env ww (r w))
          else if k = w then coerced env ww (r w)
          else if k = i then coerced env ii (r i)
          else r k)"

definition numeric_rows :: "'c env \<Rightarrow> string list \<Rightarrow> nat \<Rightarrow> nat \<Rightarrow> row list \<Rightarrow> row list" where
  "numeric_rows env cols i w rows =
     [r \<leftarrow> map (numeric_row env cols i w (int_column env i rows) (int_column env w rows)) rows.
        \<not> isna (r i) \<and> \<not> isna (r w)]"

text \<open>
  After steps 3 and 4 (lines 46-56): the rows of the cleaned frame, from the rows that
  were read.
\<close>

definition dated_rows :: "'c env \<Rightarrow> nat \<Rightarrow> row list \<Rightarrow> row list" where
  "dated_rows env m rows =
     sorted_rows (tie_order env) m
       [r \<leftarrow> map (\<lambda>r. r(m := to_datetime ''%y-%b'' (r m))) rows. \<not> isna (r m)]"

definition cleaned_rows :: "'c env \<Rightarrow> string list \<Rightarrow> nat \<Rightarrow> nat \<Rightarrow> nat \<Rightarrow> row list \<Rightarrow> row list" where
  "cleaned_rows env cols m i w rows = numeric_rows env cols i w (dated_rows env m rows)"

text \<open>The series of lines 73-74, with the month at position \<open>m\<close> and the values at \<open>j\<close>.\<close>

definition series_of :: "nat \<Rightarrow> nat \<Rightarrow> row list \<Rightarrow> series" where
  "series_of m j rows = zip (map (\<lambda>r. r m) rows) (map (\<lambda>r. r j) rows)"

subsection \<open>The records of the answer\<close>

text \<open>The columns of the forecast frame after line 105, and one of its rows.\<close>

definition forecast_columns :: "string list" where
  "forecast_columns = [''Month'', ''Inflow_Forecast'', ''Outflow_Forecast'',
                       ''Net_Cashflow_Forecast'', ''Inflow'', ''Outflow'', ''Net_Cashflow'']"

definition forecast_cells :: "rounding \<Rightarrow> date \<Rightarrow> fl \<Rightarrow> fl \<Rightarrow> cell list" where
  "forecast_cells rnd d x y =
     [CStr (strftime_bY d), CNum (np_round2 rnd x), CNum (np_round2 rnd y),
      CNum (fl_add rnd (np_round2 rnd x) (np_round2 rnd y)),
      CNum (np_round2 rnd x), CNum (np_round2 rnd y),
      CNum (fl_add rnd (np_round2 rnd x) (np_round2 rnd y))]"

text \<open>
  The columns of the combined frame, and the record of a row of a frame with columns
  \<open>old\<close>: a cell per combined column, missing where the frame has no such column, and
  with NaN and the infinities replaced.
\<close>

definition combined_columns :: "string list \<Rightarrow> string list" where
  "combined_columns cols = cols @ [c \<leftarrow> forecast_columns. c \<notin> set cols]"

definition record_of :: "string list \<Rightarrow> string list \<Rightarrow> row \<Rightarrow> record_dict" where
  "record_of old new r =
     map (\<lambda>c. (c, case index_of c old of Some i \<Rightarrow> sanitize (r i) | None \<Rightarrow> CNull)) new"

text \<open>
  The records of the historical rows and of the twelve forecast rows. In a historical
  row the month is displayed, and the cells of every int64 column are floats.
\<close>

definition history_row :: "rounding \<Rightarrow> frame \<Rightarrow> nat \<Rightarrow> row \<Rightarrow> row" where
  "history_row rnd df m r =
     (\<lambda>j. if j = m then display_month (r m)
          else if j < length (columns df) \<and> list_all (\<lambda>q. is_int (q j)) (data df)
          then as_float rnd (r j) else r j)"

definition history_records :: "rounding \<Rightarrow> frame \<Rightarrow> nat \<Rightarrow> record_dict list" where
  "history_records rnd df m =
     map (\<lambda>r. record_of (columns df) (combined_columns (columns df)) (history_row rnd df m r))
         (data df)"

definition forecast_records ::
  "rounding \<Rightarrow> string list \<Rightarrow> date \<Rightarrow> fl list \<Rightarrow> fl list \<Rightarrow> record_dict list" where
  "forecast_records rnd cols last_date fi fo =
     map (\<lambda>k. record_of forecast_columns (combined_columns cols)
                 (row_of (forecast_cells rnd (date_range_MS (month_begin_next last_date) 12 ! k)
                                         (fi ! k) (fo ! k))))
         [0..<12]"

text \<open>Dates in chronological order.\<close>

definition date_key :: "date \<Rightarrow> int \<times> nat \<times> nat" where
  "date_key d = (year d, month d, day d)"

subsection \<open>Sample inputs\<close>

text \<open>
  An instance of the libraries on which the handler can be run: the content of an upload
  is its table, a cell is numeric when it holds a number, each fit extends the last
  value of the series by a fixed step, every rational number is a float, and the sort is
  stable.
\<close>

fun sample_number :: "cell \<Rightarrow> num" where
  "sample_number (CInt k) = Int64 k"
| "sample_number (CNum x) = Float64 x"
| "sample_number _ = Float64 NaN"

fun sample_level :: "cell \<Rightarrow> rat" where
  "sample_level (CInt k) = of_int k"
| "sample_level (CNum (Fin q)) = q"
| "sample_level _ = 0"

definition sample_fit :: "rat \<Rightarrow> series \<Rightarrow> string + (nat \<Rightarrow> fl)" where
  "sample_fit step s =
     (if s = [] then Inl ''empty series''
      else Inr (\<lambda>k. Fin (sample_level (snd (last s)) + of_nat k * step)))"

definition sample_env :: "frame env" where
  "sample_env = \<lparr>read_csv = Inr, read_excel = Inr, to_numeric = sample_number,
                  fit_holt = sample_fit (1 / 3), fit_ses = sample_fit 0,
                  nearest_float = Some, tie_order = (\<lambda>keys p. 0)\<rparr>"

text \<open>Two usable rows.\<close>

definition two_rows :: frame where
  "two_rows = \<lparr>columns = [''Months'', ''Cash Inflow'', ''Cash Outflow''],
               data = [row_of [CStr ''24-Jan'', CNum (Fin 1000), CNum (Fin (- 400))],
                       row_of [CStr ''24-Feb'', CNum (Fin 1100), CNum (Fin (- 450))]]\<rparr>"

text \<open>Three usable rows (the months are not in order).\<close>

definition three_rows :: frame where
  "three_rows = \<lparr>columns = [''Months'', ''Cash Inflow'', ''Cash Outflow''],
                 data = [row_of [CStr ''24-Mar'', CNum (Fin 1050), CNum (Fin (- 420))],
                         row_of [CStr ''24-Jan'', CNum (Fin 1000), CNum (Fin (- 400))],
                         row_of [CStr ''24-Feb'', CNum (Fin 1100), CNum (Fin (- 450))]]\<rparr>"

text \<open>Three rows whose months are written day first, as the second format expects.\<close>

definition day_first_rows :: frame where
  "day_first_rows = \<lparr>columns = [''Month'', ''Inflow'', ''Outflow''],
                     data = [row_of [CStr ''01-Jan-24'', CNum (Fin 1000), CNum (Fin (- 400))],
                             row_of [CStr ''01-Feb-24'', CNum (Fin 1100), CNum (Fin (- 450))],
                             row_of [CStr ''01-Mar-24'', CNum (Fin 1050), CNum (Fin (- 420))]]\<rparr>"

section \<open>Properties\<close>

subsection \<open>Columns\<close>

lemma locs_mem: "j \<in> set (locs name cols) \<longleftrightarrow> j < length cols \<and> cols ! j = name"
  by (auto simp: locs_def)

lemma locs_Nil: "locs name cols = [] \<longleftrightarrow> name \<notin> set cols"
  by (auto simp: locs_def filter_empty_conv in_set_conv_nth)

lemma locs_single_mem: "locs name cols = [j] \<Longrightarrow> k \<in> set (locs name cols) \<longleftrightarrow> k = j"
  by simp

lemma locs_singleD: "locs name cols = [j] \<Longrightarrow> j < length cols \<and> cols ! j = name \<and> name \<in> set cols"
  using locs_mem[of j name cols] by auto

lemma column_Inr:
  "column err name df = Inr xs \<longleftrightarrow> (\<exists>j. locs name (columns df) = [j] \<and> xs = map (\<lambda>r. r j) (data df))"
  by (auto simp: column_def getitem_def split: list.splits)

lemma column_single:
  "locs name (columns df) = [j] \<Longrightarrow> column err name df = Inr (map (\<lambda>r. r j) (data df))"
  by (simp add: column_Inr)

lemma map2_same: "map2 g xs (map f xs) = map (\<lambda>x. g x (f x)) xs"
  by (induction xs) auto

lemma setitem_single:
  assumes "locs name (columns df) = [j]"
  shows "setitem name (map f (data df)) df = df\<lparr>data := map (\<lambda>r. r(j := f r)) (data df)\<rparr>"
proof -
  have "name \<in> set (columns df)" using assms locs_singleD by blast
  moreover have "\<And>r. (\<lambda>k. if k \<in> set (locs name (columns df)) then f r else r k) = r(j := f r)"
    using assms by (auto simp: fun_eq_iff)
  ultimately show ?thesis by (simp add: setitem_def map2_same)
qed

lemma to_datetime_isna: "isna (to_datetime fmt c) \<Longrightarrow> to_datetime fmt c = CNull"
  by (cases c) (auto split: option.splits)

lemma to_datetime_twice: "isna (to_datetime fmt c) \<Longrightarrow> to_datetime fmt' (to_datetime fmt c) = to_datetime fmt c"
  by (simp add: to_datetime_isna)

lemma columns_data_update [simp]: "columns (df\<lparr>data := xs\<rparr>) = columns df"
  by simp

lemma dropna_subset_single:
  "locs name (columns df) = [j] \<Longrightarrow>
   dropna_subset [name] df = df\<lparr>data := [r \<leftarrow> data df. \<not> isna (r j)]\<rparr>"
  by (simp add: dropna_subset_def)

lemma sort_values_single:
  "locs name (columns df) = [j] \<Longrightarrow>
   sort_values ties name df = df\<lparr>data := sorted_rows ties j (data df)\<rparr>"
  by (simp add: sort_values_def)

subsection \<open>The sort\<close>

lemma length_sorted_rows [simp]: "length (sorted_rows ties j rows) = length rows"
  by (simp add: sorted_rows_def)

lemma set_sorted_rows [simp]: "set (sorted_rows ties j rows) = set rows"
proof -
  have "set (map snd (sort_key F (zip [0..<length rows] rows))) = set rows"
    for F :: "nat \<times> row \<Rightarrow> order_key \<times> nat"
  proof -
    have "set (map snd (sort_key F (zip [0..<length rows] rows))) =
          set (map snd (zip [0..<length rows] rows))"
      by (simp only: set_map set_sort)
    then show ?thesis by simp
  qed
  then show ?thesis by (simp add: sorted_rows_def)
qed

lemma sorted_map_fst:
  fixes F :: "'a \<Rightarrow> 'b::linorder \<times> 'c::linorder"
  assumes "sorted (map F xs)"
  shows "sorted (map (\<lambda>x. fst (F x)) xs)"
  using assms by (induction xs) (auto simp: less_eq_prod_def)

lemma sorted_sorted_rows: "sorted (map (\<lambda>r. sort_key_of (r j)) (sorted_rows ties j rows))"
proof -
  define F :: "nat \<times> row \<Rightarrow> order_key \<times> nat"
    where "F = (\<lambda>pr. (sort_key_of (snd pr j), ties (map (\<lambda>r. sort_key_of (r j)) rows) (fst pr)))"
  have "sorted (map F (sort_key F (zip [0..<length rows] rows)))" by (rule sorted_sort_key)
  then have "sorted (map (\<lambda>x. fst (F x)) (sort_key F (zip [0..<length rows] rows)))"
    by (rule sorted_map_fst)
  then show ?thesis by (simp add: sorted_rows_def F_def comp_def)
qed

subsection \<open>Months\<close>

lemma fallback_noop:
  assumes "list_all isna (map (\<lambda>r. r m) (data (primary_parsed m df)))"
  shows "map (\<lambda>r. r(m := to_datetime ''%d-%b-%y'' (r m))) (data (primary_parsed m df)) = data (primary_parsed m df)"
  using assms
  by (auto simp: primary_parsed_def list_all_iff fun_eq_iff to_datetime_isna intro!: map_idI)

lemma parse_months_single:
  assumes "locs ''Month'' (columns df) = [m]"
  shows "parse_months env df = Inr (df\<lparr>data := dated_rows env m (data df)\<rparr>)"
proof -
  let ?df1 = "primary_parsed m df"
  have c1: "locs ''Month'' (columns ?df1) = [m]" using assms by (simp add: primary_parsed_def)
  have s1: "setitem ''Month'' (map (to_datetime ''%y-%b'') (map (\<lambda>r. r m) (data df))) df = ?df1"
    using setitem_single[OF assms, of "\<lambda>r. to_datetime ''%y-%b'' (r m)"]
    by (simp add: primary_parsed_def comp_def)
  have s2: "list_all isna (map (\<lambda>r. r m) (data ?df1)) \<Longrightarrow>
        setitem ''Month'' (map (to_datetime ''%d-%b-%y'') (map (\<lambda>r. r m) (data ?df1))) ?df1 = ?df1"
    using setitem_single[OF c1, of "\<lambda>r. to_datetime ''%d-%b-%y'' (r m)"] fallback_noop[of m df]
    by (simp add: comp_def)
  have "parse_months env df = Inr (sort_values (tie_order env) ''Month'' (dropna_subset [''Month''] ?df1))"
    unfolding parse_months_def
    by (simp add: column_single[OF assms] column_single[OF c1] s1 s2 Let_def del: map_map)
  also have "\<dots> = Inr (?df1\<lparr>data := sorted_rows (tie_order env) m [r \<leftarrow> data ?df1. \<not> isna (r m)]\<rparr>)"
    using c1 by (simp add: dropna_subset_single sort_values_single)
  finally show ?thesis by (simp add: primary_parsed_def dated_rows_def)
qed

lemma parse_months_InrD:
  "parse_months env df = Inr df' \<Longrightarrow> \<exists>m. locs ''Month'' (columns df) = [m]"
  unfolding parse_months_def
  by (cases "column no_tolist ''Month'' df") (auto simp: column_Inr)

subsection \<open>Numbers\<close>

lemma map2_maps: "map2 g (map f xs) (map h xs) = map (\<lambda>x. g (f x) (h x)) xs"
  by (induction xs) auto

lemma locs_append1:
  "locs name (cols @ [c]) = locs name cols @ (if c = name then [length cols] else [])"
  by (auto simp: locs_def nth_append intro: filter_cong)

lemma setitem_map:
  "setitem name (map f (data df)) df =
     \<lparr>columns = (if name \<in> set (columns df) then columns df else columns df @ [name]),
      data = map (\<lambda>r. (\<lambda>k. if k \<in> set (locs name (if name \<in> set (columns df) then columns df else columns df @ [name])) then f r else r k)) (data df)\<rparr>"
proof (cases "name \<in> set (columns df)")
  case True
  then show ?thesis by (simp add: setitem_def map2_same)
next
  case False
  then have "locs name (columns df) = []" by (simp add: locs_Nil)
  then have "\<And>r. r(length (columns df) := f r) = (\<lambda>k. if k \<in> set (locs name (columns df @ [name])) then f r else r k)"
    by (auto simp: locs_append1 fun_eq_iff)
  with False show ?thesis by (simp add: setitem_def map2_same)
qed

lemma round_float_not_NaN [simp]: "round_float rnd q \<noteq> NaN"
  by (simp add: round_float_def split: option.splits)

lemma is_int_as_float [simp]: "\<not> is_int (as_float rnd c)"
  by (cases c) auto

lemma isna_CNum [simp]: "isna (CNum x) \<longleftrightarrow> x = NaN"
  by (cases x) auto

lemma isna_coerced [simp]: "isna (coerced env b c) \<longleftrightarrow> to_numeric env c = Float64 NaN"
  by (cases "to_numeric env c") (auto simp: coerced_def)

lemma int_column_Nil [simp]: "int_column env j [] = True"
  by (simp add: int_column_def)

lemma coerced_all_int:
  "list_all (\<lambda>r. is_int (coerced env (int_column env j rows) (r j))) rows = int_column env j rows"
proof (cases "int_column env j rows")
  case True
  then show ?thesis by (simp add: coerced_def int_column_def)
next
  case False
  then have "rows \<noteq> []" by auto
  with False show ?thesis by (cases rows) (auto simp: coerced_def)
qed

lemma to_numeric_column_rows:
  "to_numeric_column env (map (\<lambda>r. r j) rows) = map (\<lambda>r. coerced env (int_column env j rows) (r j)) rows"
  by (cases "int_column env j rows")
     (auto simp: to_numeric_column_def Let_def coerced_def int_column_def list_all_iff comp_def)

lemma add_columns_maps:
  "add_columns rnd (map f xs) (map g xs) =
   map (\<lambda>x. net_cell rnd (list_all (\<lambda>x. is_int (f x)) xs \<and> list_all (\<lambda>x. is_int (g x)) xs) (f x) (g x)) xs"
  by (simp add: add_columns_def net_cell_def map2_maps list_all_iff)

lemma int_column_cong:
  "(\<And>r. r \<in> set rows \<Longrightarrow> f r j = r j) \<Longrightarrow> int_column env j (map f rows) = int_column env j rows"
  by (simp add: int_column_def list_all_iff)

lemma convert_numerics_single:
  assumes i: "locs ''Inflow'' (columns df) = [i]" and w: "locs ''Outflow'' (columns df) = [w]"
  shows "convert_numerics env df =
         Inr \<lparr>columns = net_columns (columns df), data = numeric_rows env (columns df) i w (data df)\<rparr>"
proof -
  let ?rnd = "nearest_float env"
  define ii where "ii = int_column env i (data df)"
  define ww where "ww = int_column env w (data df)"
  define df1 where "df1 = setitem ''Inflow'' (to_numeric_column env (map (\<lambda>r. r i) (data df))) df"
  define df2 where "df2 = setitem ''Outflow'' (to_numeric_column env (map (\<lambda>r. r w) (data df1))) df1"
  define df3 where "df3 = setitem ''Net_Cashflow''
      (add_columns ?rnd (map (\<lambda>r. r i) (data df2)) (map (\<lambda>r. r w) (data df2))) df2"
  have iw: "i \<noteq> w" using locs_singleD[OF i] locs_singleD[OF w] by auto
  have e1: "df1 = df\<lparr>data := map (\<lambda>r. r(i := coerced env ii (r i))) (data df)\<rparr>"
    unfolding df1_def to_numeric_column_rows ii_def[symmetric]
    by (rule setitem_single[OF i])
  have w1: "locs ''Outflow'' (columns df1) = [w]" using w by (simp add: e1)
  have ww1: "int_column env w (data df1) = ww"
    unfolding ww_def e1 using iw by (simp add: int_column_cong)
  have e2': "df2 = df1\<lparr>data := map (\<lambda>r. r(w := coerced env ww (r w))) (data df1)\<rparr>"
    unfolding df2_def to_numeric_column_rows ww1
    by (rule setitem_single[OF w1])
  have e2: "df2 = df\<lparr>data := map (\<lambda>r. r(i := coerced env ii (r i), w := coerced env ww (r w))) (data df)\<rparr>"
    unfolding e2' e1 using iw by (simp add: comp_def)
  have i2: "locs ''Inflow'' (columns df2) = [i]" and w2: "locs ''Outflow'' (columns df2) = [w]"
    using i w by (simp_all add: e2)
  have iN: "i \<notin> set (locs ''Net_Cashflow'' (net_columns (columns df)))"
    and wN: "w \<notin> set (locs ''Net_Cashflow'' (net_columns (columns df)))"
    using locs_singleD[OF i] locs_singleD[OF w]
    by (auto simp: locs_mem net_columns_def nth_append)
  have a2: "list_all (\<lambda>r. is_int (r i)) (data df2) = ii" "list_all (\<lambda>r. is_int (r w)) (data df2) = ww"
    using iw coerced_all_int[of env i "data df"] coerced_all_int[of env w "data df"]
    by (simp_all add: e2 ii_def ww_def list_all_iff)
  have "df3 = setitem ''Net_Cashflow'' (map (\<lambda>r. net_cell ?rnd (ii \<and> ww) (r i) (r w)) (data df2)) df2"
    unfolding df3_def add_columns_maps a2 ..
  also have "\<dots> = \<lparr>columns = net_columns (columns df), data = map (numeric_row env (columns df) i w ii ww) (data df)\<rparr>"
    unfolding setitem_map using iw iN wN
    by (auto simp: e2 net_columns_def numeric_row_def fun_eq_iff)
  finally have e3: "df3 = \<lparr>columns = net_columns (columns df), data = map (numeric_row env (columns df) i w ii ww) (data df)\<rparr>" .
  have l3: "locs ''Inflow'' (net_columns (columns df)) = [i]" "locs ''Outflow'' (net_columns (columns df)) = [w]"
    using i w by (auto simp: net_columns_def locs_append1)
  have "convert_numerics env df = Inr (dropna_subset [''Inflow'', ''Outflow''] df3)"
    unfolding convert_numerics_def
    by (simp only: column_single[OF i] column_single[OF w1] column_single[OF i2] column_single[OF w2]
          and_then.simps Let_def df1_def[symmetric] df2_def[symmetric] df3_def[symmetric])
  then show ?thesis
    by (simp add: e3 dropna_subset_def l3 numeric_rows_def ii_def ww_def del: map_map)
qed

lemma column_same_columns:
  "columns df' = columns df \<Longrightarrow> column err name df = Inl e \<Longrightarrow> column err name df' = Inl e"
  by (auto simp: column_def getitem_def split: list.splits)

lemma convert_numerics_InrD:
  assumes "convert_numerics env df = Inr df'"
  shows "\<exists>i w. locs ''Inflow'' (columns df) = [i] \<and> locs ''Outflow'' (columns df) = [w]"
proof -
  obtain a where a: "column not_one_dimensional ''Inflow'' df = Inr a"
    using assms unfolding convert_numerics_def
    by (cases "column not_one_dimensional ''Inflow'' df") auto
  then obtain i where i: "locs ''Inflow'' (columns df) = [i]" by (auto simp: column_Inr)
  let ?df1 = "setitem ''Inflow'' (to_numeric_column env a) df"
  have c1: "columns ?df1 = columns df" using locs_singleD[OF i] by (simp add: setitem_def)
  obtain b where b: "column not_one_dimensional ''Outflow'' ?df1 = Inr b"
    using assms a unfolding convert_numerics_def
    by (cases "column not_one_dimensional ''Outflow'' ?df1") (auto simp: Let_def)
  then obtain w where "locs ''Outflow'' (columns df) = [w]" by (auto simp: column_Inr c1)
  with i show ?thesis by blast
qed

subsection \<open>The libraries that a step does not call\<close>

lemma read_table_fits [simp]:
  "read_table (env\<lparr>fit_holt := h, fit_ses := s\<rparr>) f = read_table env f"
  by (simp add: read_table_def)

lemma to_numeric_column_env:
  assumes "to_numeric env' = to_numeric env" and "nearest_float env' = nearest_float env"
  shows "to_numeric_column env' xs = to_numeric_column env xs"
  by (simp add: to_numeric_column_def Let_def assms)

lemma convert_numerics_env:
  assumes "to_numeric env' = to_numeric env" and "nearest_float env' = nearest_float env"
  shows "convert_numerics env' df = convert_numerics env df"
  by (simp add: convert_numerics_def to_numeric_column_env[OF assms] assms(2))

lemma clean_env:
  assumes "to_numeric env' = to_numeric env" and "nearest_float env' = nearest_float env"
    and "tie_order env' = tie_order env"
  shows "clean env' df = clean env df"
  by (simp add: clean_def parse_months_def convert_numerics_env[OF assms(1,2)] assms(3))

lemma clean_fits [simp]:
  "clean (env\<lparr>fit_holt := h, fit_ses := s\<rparr>) df = clean env df"
  by (rule clean_env) simp_all

lemma read_table_filename: "read_table env f = Some x \<Longrightarrow> filename f \<noteq> []"
  by (auto simp: read_table_def endswith_def split: if_splits)

subsection \<open>The steps, in closed form\<close>

lemma clean_single:
  assumes m: "locs ''Month'' (columns (standardize_columns df0)) = [m]"
    and i: "locs ''Inflow'' (columns (standardize_columns df0)) = [i]"
    and w: "locs ''Outflow'' (columns (standardize_columns df0)) = [w]"
  shows "clean env df0 =
         Inr \<lparr>columns = net_columns (columns (standardize_columns df0)),
              data = cleaned_rows env (columns (standardize_columns df0)) m i w (data df0)\<rparr>"
proof -
  let ?std = "standardize_columns df0"
  have d: "data ?std = data df0" by (simp add: standardize_columns_def)
  show ?thesis
    unfolding clean_def parse_months_single[OF m] and_then.simps
    using convert_numerics_single[of "?std\<lparr>data := dated_rows env m (data ?std)\<rparr>" i w env] i w
    by (simp add: cleaned_rows_def d)
qed

lemma clean_InrD:
  assumes "clean env df0 = Inr df"
  shows "\<exists>m i w. locs ''Month'' (columns (standardize_columns df0)) = [m] \<and>
                 locs ''Inflow'' (columns (standardize_columns df0)) = [i] \<and>
                 locs ''Outflow'' (columns (standardize_columns df0)) = [w]"
proof -
  obtain dfp where p: "parse_months env (standardize_columns df0) = Inr dfp"
    and c: "convert_numerics env dfp = Inr df"
    using assms unfolding clean_def by (cases "parse_months env (standardize_columns df0)") auto
  obtain m where m: "locs ''Month'' (columns (standardize_columns df0)) = [m]"
    using parse_months_InrD[OF p] by blast
  have "columns dfp = columns (standardize_columns df0)"
    using p unfolding parse_months_single[OF m] by auto
  with convert_numerics_InrD[OF c] m show ?thesis by auto
qed

lemma numeric_row_cells:
  assumes i: "locs ''Inflow'' cols = [i]" and w: "locs ''Outflow'' cols = [w]"
  shows "numeric_row env cols i w ii ww r i = coerced env ii (r i)"
    and "numeric_row env cols i w ii ww r w = coerced env ww (r w)"
    and "n \<in> set (locs ''Net_Cashflow'' (net_columns cols)) \<Longrightarrow>
         numeric_row env cols i w ii ww r n =
           net_cell (nearest_float env) (ii \<and> ww) (coerced env ii (r i)) (coerced env ww (r w))"
    and "k \<noteq> i \<Longrightarrow> k \<noteq> w \<Longrightarrow> k \<notin> set (locs ''Net_Cashflow'' (net_columns cols)) \<Longrightarrow>
         numeric_row env cols i w ii ww r k = r k"
proof -
  have "i \<notin> set (locs ''Net_Cashflow'' (net_columns cols))"
    and "w \<notin> set (locs ''Net_Cashflow'' (net_columns cols))" and "i \<noteq> w"
    using locs_singleD[OF i] locs_singleD[OF w]
    by (auto simp: locs_mem net_columns_def nth_append)
  then show "numeric_row env cols i w ii ww r i = coerced env ii (r i)"
    and "numeric_row env cols i w ii ww r w = coerced env ww (r w)"
    and "n \<in> set (locs ''Net_Cashflow'' (net_columns cols)) \<Longrightarrow>
         numeric_row env cols i w ii ww r n =
           net_cell (nearest_float env) (ii \<and> ww) (coerced env ii (r i)) (coerced env ww (r w))"
    and "k \<noteq> i \<Longrightarrow> k \<noteq> w \<Longrightarrow> k \<notin> set (locs ''Net_Cashflow'' (net_columns cols)) \<Longrightarrow>
         numeric_row env cols i w ii ww r k = r k"
    by (auto simp: numeric_row_def)
qed

lemma locs_net_columns_nonempty: "locs ''Net_Cashflow'' (net_columns cols) \<noteq> []"
  by (auto simp: locs_Nil net_columns_def)

lemma locs_net_columns_other:
  "name \<noteq> ''Net_Cashflow'' \<Longrightarrow> locs name (net_columns cols) = locs name cols"
  by (auto simp: net_columns_def locs_append1)

lemma numeric_rows_kept:
  assumes i: "locs ''Inflow'' cols = [i]" and w: "locs ''Outflow'' cols = [w]"
  shows "numeric_rows env cols i w rows =
         map (numeric_row env cols i w (int_column env i rows) (int_column env w rows))
           [r \<leftarrow> rows. to_numeric env (r i) \<noteq> Float64 NaN \<and> to_numeric env (r w) \<noteq> Float64 NaN]"
  by (simp add: numeric_rows_def filter_map comp_def numeric_row_cells[OF i w])


lemma length_month_starts [simp]: "length (month_starts d n) = n"
  by (induction n arbitrary: d) auto

lemma length_date_range_MS [simp]: "length (date_range_MS d n) = n"
  by (simp add: date_range_MS_def)

lemma length_forecast_steps [simp]: "length (forecast_steps fit n) = n"
  by (simp add: forecast_steps_def)

lemma and_then_Inr_iff: "and_then m f = Inr y \<longleftrightarrow> (\<exists>x. m = Inr x \<and> f x = Inr y)"
  by (cases m) auto

lemma and_then_Inl_iff: "and_then m f = Inl e \<longleftrightarrow> m = Inl e \<or> (\<exists>x. m = Inr x \<and> f x = Inl e)"
  by (cases m) auto

lemma safe_forecast_length: "safe_forecast env s = Inr xs \<Longrightarrow> length xs = 12"
  by (auto simp: safe_forecast_def and_then_Inr_iff split: sum.splits)

lemma make_frame3:
  assumes "length b = length a" "length c = length a"
  shows "make_frame [(n1, a), (n2, b), (n3, c)] =
         Inr \<lparr>columns = [n1, n2, n3],
              data = map (\<lambda>k. row_of [a ! k, b ! k, c ! k]) [0..<length a]\<rparr>"
  using assms by (simp add: make_frame_def)

lemma row_of_nth: "k < length cs \<Longrightarrow> row_of cs k = cs ! k"
  by (simp add: row_of_def)

lemma list_all_False: "\<forall>x \<in> set xs. \<not> P x \<Longrightarrow> xs \<noteq> [] \<Longrightarrow> list_all P xs = False"
  by (cases xs) auto

lemma net_cell_floats: "net_cell rnd False (CNum a) (CNum b) = CNum (fl_add rnd a b)"
  by (simp add: net_cell_def)

lemma build_forecast_df_eq:
  assumes fi: "length fi = 12" and fo: "length fo = 12"
  shows "build_forecast_df rnd d fi fo =
         Inr \<lparr>columns = forecast_columns,
              data = map (\<lambda>k. row_of (forecast_cells rnd (date_range_MS (month_begin_next d) 12 ! k)
                                                     (fi ! k) (fo ! k))) [0..<12]\<rparr>"
proof -
  let ?idx = "date_range_MS (month_begin_next d) 12"
  let ?c0 = "map (\<lambda>d. CStr (strftime_bY d)) ?idx"
  let ?c1 = "map (\<lambda>x. CNum (np_round2 rnd x)) fi"
  let ?c2 = "map (\<lambda>x. CNum (np_round2 rnd x)) fo"
  define f0 where "f0 = \<lparr>columns = [''Month'', ''Inflow_Forecast'', ''Outflow_Forecast''],
                          data = map (\<lambda>k. row_of [?c0 ! k, ?c1 ! k, ?c2 ! k]) [0..<12]\<rparr>"
  have mf: "make_frame [(''Month'', ?c0), (''Inflow_Forecast'', ?c1), (''Outflow_Forecast'', ?c2)] = Inr f0"
    using make_frame3[of ?c1 ?c0 ?c2] fi fo by (simp add: f0_def)
  define f1 where "f1 = setitem ''Net_Cashflow_Forecast''
                          (add_columns rnd (map (\<lambda>r. r 1) (data f0)) (map (\<lambda>r. r 2) (data f0))) f0"
  define f2 where "f2 = setitem ''Inflow'' (map (\<lambda>r. r 1) (data f1)) f1"
  define f3 where "f3 = setitem ''Outflow'' (map (\<lambda>r. r 2) (data f2)) f2"
  define f4 where "f4 = setitem ''Net_Cashflow'' (map (\<lambda>r. r 3) (data f3)) f3"
  have c0: "columns f0 = [''Month'', ''Inflow_Forecast'', ''Outflow_Forecast'']" by (simp add: f0_def)
  have "\<forall>r \<in> set (data f0). \<not> is_int (r 1)"
    using fi by (auto simp: f0_def row_of_def simp del: upt_Suc)
  moreover have "data f0 \<noteq> []" by (simp add: f0_def)
  ultimately have nf: "list_all (\<lambda>r. is_int (r 1)) (data f0) = False"
    by (rule list_all_False)
  have "f1 = setitem ''Net_Cashflow_Forecast'' (map (\<lambda>r. net_cell rnd False (r 1) (r 2)) (data f0)) f0"
    unfolding f1_def add_columns_maps nf by simp
  then have e1: "f1 = \<lparr>columns = [''Month'', ''Inflow_Forecast'', ''Outflow_Forecast'', ''Net_Cashflow_Forecast''],
                  data = map (\<lambda>r. r(3 := net_cell rnd False (r 1) (r 2))) (data f0)\<rparr>"
    unfolding setitem_map by (auto simp: c0 locs_def fun_eq_iff)
  have e2: "f2 = \<lparr>columns = [''Month'', ''Inflow_Forecast'', ''Outflow_Forecast'', ''Net_Cashflow_Forecast'', ''Inflow''],
                  data = map (\<lambda>r. r(4 := r 1)) (data f1)\<rparr>"
    unfolding f2_def setitem_map by (auto simp: e1 locs_def fun_eq_iff)
  have e3: "f3 = \<lparr>columns = [''Month'', ''Inflow_Forecast'', ''Outflow_Forecast'', ''Net_Cashflow_Forecast'', ''Inflow'', ''Outflow''],
                  data = map (\<lambda>r. r(5 := r 2)) (data f2)\<rparr>"
    unfolding f3_def setitem_map by (auto simp: e2 locs_def fun_eq_iff)
  have e4: "f4 = \<lparr>columns = forecast_columns, data = map (\<lambda>r. r(6 := r 3)) (data f3)\<rparr>"
    unfolding f4_def setitem_map by (auto simp: e3 locs_def fun_eq_iff forecast_columns_def)
  have l0: "locs ''Inflow_Forecast'' (columns f0) = [1]" "locs ''Outflow_Forecast'' (columns f0) = [2]"
    by (simp_all add: c0 locs_def)
  have l1: "locs ''Inflow_Forecast'' (columns f1) = [1]" by (simp add: e1 locs_def)
  have l2: "locs ''Outflow_Forecast'' (columns f2) = [2]" by (simp add: e2 locs_def)
  have l3: "locs ''Net_Cashflow_Forecast'' (columns f3) = [3]" by (simp add: e3 locs_def)
  have "build_forecast_df rnd d fi fo = Inr f4"
    unfolding build_forecast_df_def
    by (simp only: Let_def mf and_then.simps column_single[OF l0(1)] column_single[OF l0(2)]
          f1_def[symmetric] column_single[OF l1] f2_def[symmetric] column_single[OF l2]
          f3_def[symmetric] column_single[OF l3] f4_def[symmetric])
  moreover have "f4 = \<lparr>columns = forecast_columns,
              data = map (\<lambda>k. row_of (forecast_cells rnd (?idx ! k) (fi ! k) (fo ! k))) [0..<12]\<rparr>"
  proof -
    have "\<And>k. k < 12 \<Longrightarrow>
        (row_of [?c0 ! k, ?c1 ! k, ?c2 ! k])
          (3 := net_cell rnd False (row_of [?c0 ! k, ?c1 ! k, ?c2 ! k] 1) (row_of [?c0 ! k, ?c1 ! k, ?c2 ! k] 2),
           4 := row_of [?c0 ! k, ?c1 ! k, ?c2 ! k] 1,
           5 := row_of [?c0 ! k, ?c1 ! k, ?c2 ! k] 2,
           6 := net_cell rnd False (row_of [?c0 ! k, ?c1 ! k, ?c2 ! k] 1) (row_of [?c0 ! k, ?c1 ! k, ?c2 ! k] 2))
        = row_of (forecast_cells rnd (?idx ! k) (fi ! k) (fo ! k))"
      using fi fo
      by (auto simp: fun_eq_iff row_of_def forecast_cells_def nth_Cons' less_Suc_eq net_cell_floats)
    then show ?thesis
      unfolding e4 e3 e2 e1 by (simp add: f0_def comp_def)
  qed
  ultimately show ?thesis by simp
qed

lemma index_of_None_iff: "index_of x xs = None \<longleftrightarrow> x \<notin> set xs"
  by (induction xs) auto

lemma index_of_SomeD: "index_of x xs = Some i \<Longrightarrow> i < length xs \<and> xs ! i = x"
  by (induction xs arbitrary: i) (auto split: if_splits)

lemma index_of_first: "index_of x xs = Some i \<Longrightarrow> k < i \<Longrightarrow> xs ! k \<noteq> x"
proof (induction xs arbitrary: i k)
  case Nil
  then show ?case by simp
next
  case (Cons y ys)
  then show ?case by (cases k) (auto split: if_splits)
qed

lemma index_of_single:
  assumes "locs name cols = [j]"
  shows "index_of name cols = Some j"
proof -
  have "name \<in> set cols" using locs_singleD[OF assms] by simp
  then obtain i where i: "index_of name cols = Some i"
    using index_of_None_iff[of name cols] by (cases "index_of name cols") auto
  then have "i \<in> set (locs name cols)" using index_of_SomeD[OF i] by (simp add: locs_mem)
  with assms i show ?thesis by simp
qed

lemma to_dict_reindex:
  "map (\<lambda>j. (new ! j, sanitize (reindex old new r j))) [0..<length new] = record_of old new r"
proof -
  have "map (\<lambda>j. (new ! j, sanitize (reindex old new r j))) [0..<length new]
        = map (\<lambda>j. (\<lambda>c. (c, case index_of c old of Some i \<Rightarrow> sanitize (r i) | None \<Rightarrow> CNull)) (new ! j)) [0..<length new]"
    by (auto simp: reindex_def split: option.splits)
  also have "\<dots> = map (\<lambda>c. (c, case index_of c old of Some i \<Rightarrow> sanitize (r i) | None \<Rightarrow> CNull)) (map ((!) new) [0..<length new])"
    by (simp add: comp_def)
  finally show ?thesis by (simp add: record_of_def map_nth)
qed

lemma is_float_not_int: "is_float c \<Longrightarrow> \<not> is_int c"
  by (cases c) auto

lemma as_float_display_month [simp]: "as_float rnd (display_month c) = display_month c"
  by (cases c) auto

text \<open>The int64 columns of the historical frame in the concatenation.\<close>

lemma upcast_history:
  assumes m: "locs ''Month'' (columns df) = [m]"
    and fcols: "columns fdf = forecast_columns"
    and ffl: "\<forall>q \<in> set (data fdf). \<forall>k. 0 < k \<and> k < 7 \<longrightarrow> is_float (q k)"
  shows "upcast rnd (df\<lparr>data := map (\<lambda>r. r(m := display_month (r m))) (data df)\<rparr>) fdf =
         map (history_row rnd df m) (data df)"
proof -
  let ?disp = "df\<lparr>data := map (\<lambda>r. r(m := display_month (r m))) (data df)\<rparr>"
  have third: "(case index_of (columns df ! j) forecast_columns of
                  None \<Rightarrow> True | Some k \<Rightarrow> list_all (\<lambda>r. is_float (r k)) (data fdf))"
    if j: "j < length (columns df)" "j \<noteq> m" for j
  proof (cases "index_of (columns df ! j) forecast_columns")
    case None
    then show ?thesis by simp
  next
    case (Some k)
    have "columns df ! j \<noteq> ''Month''"
      using j locs_mem[of j "''Month''" "columns df"] m by auto
    moreover have "k < length forecast_columns" "forecast_columns ! k = columns df ! j"
      using index_of_SomeD[OF Some] by simp_all
    ultimately have "0 < k \<and> k < 7"
      by (cases k) (auto simp: forecast_columns_def)
    then show ?thesis using ffl Some by (simp add: list_all_iff)
  qed
  have col: "upcast_column ?disp fdf j \<longleftrightarrow>
             j < length (columns df) \<and> list_all (\<lambda>q. is_int (q j)) (data df)"
    if "j \<noteq> m" for j
    using that third[of j] by (auto simp: upcast_column_def fcols list_all_iff)
  have "(\<lambda>j. if upcast_column ?disp fdf j then as_float rnd ((r(m := display_month (r m))) j)
              else (r(m := display_month (r m))) j) = history_row rnd df m r" for r
    by (auto simp: fun_eq_iff history_row_def col)
  then show ?thesis by (simp add: upcast_def comp_def)
qed

lemma upcast_forecast:
  assumes fcols: "columns fdf = forecast_columns"
    and frows: "\<forall>q \<in> set (data fdf). \<exists>s. q 0 = CStr s"
    and ffl: "\<forall>q \<in> set (data fdf). \<forall>k. 0 < k \<and> k < 7 \<longrightarrow> is_float (q k)"
    and fne: "data fdf \<noteq> []"
  shows "upcast rnd fdf a = data fdf"
proof -
  obtain q where q: "q \<in> set (data fdf)" using fne by (cases "data fdf") auto
  have "\<not> upcast_column fdf a j" for j
  proof (cases "j < 7")
    case True
    have "\<not> is_int (q j)"
    proof (cases "j = 0")
      case True
      then show ?thesis using frows q by auto
    next
      case False
      then show ?thesis using ffl q \<open>j < 7\<close> is_float_not_int by auto
    qed
    then show ?thesis using q by (auto simp: upcast_column_def list_all_iff)
  next
    case False
    then show ?thesis by (simp add: upcast_column_def fcols forecast_columns_def)
  qed
  then show ?thesis by (simp add: upcast_def)
qed

lemma combine_eq:
  assumes m: "locs ''Month'' (columns df) = [m]"
    and dist: "distinct (columns df)"
    and dates: "\<forall>r \<in> set (data df). \<exists>d. r m = CDate d"
    and fcols: "columns fdf = forecast_columns"
    and frows: "\<forall>q \<in> set (data fdf). \<exists>s. q 0 = CStr s"
    and ffl: "\<forall>q \<in> set (data fdf). \<forall>k. 0 < k \<and> k < 7 \<longrightarrow> is_float (q k)"
    and fne: "data fdf \<noteq> []"
  shows "combine rnd df fdf =
         Inr (map (\<lambda>r. record_of (columns df) (combined_columns (columns df)) (history_row rnd df m r))
                  (data df) @
              map (record_of forecast_columns (combined_columns (columns df))) (data fdf))"
proof -
  let ?cols = "columns df" and ?new = "combined_columns (columns df)"
  define disp where "disp = setitem ''Month'' (map display_month (map (\<lambda>r. r m) (data df))) df"
  have disp: "disp = df\<lparr>data := map (\<lambda>r. r(m := display_month (r m))) (data df)\<rparr>"
    unfolding disp_def using setitem_single[OF m, of "\<lambda>r. display_month (r m)"] by (simp add: comp_def)
  define comb where "comb = \<lparr>columns = ?new,
      data = map (reindex ?cols ?new) (map (history_row rnd df m) (data df)) @
             map (reindex forecast_columns ?new) (data fdf)\<rparr>"
  have u1: "upcast rnd disp fdf = map (history_row rnd df m) (data df)"
    unfolding disp by (rule upcast_history[OF m fcols ffl])
  have u2: "upcast rnd fdf disp = data fdf"
    by (rule upcast_forecast[OF fcols frows ffl fne])
  have cd: "columns disp = ?cols" by (simp add: disp)
  have cc: "concat_frames rnd disp fdf = Inr comb"
    using dist
    by (simp add: concat_frames_def u1 u2 cd fcols comb_def combined_columns_def Let_def
        forecast_columns_def)
  have mlt: "m < length ?new" and newm: "?new ! m = ''Month''"
    using locs_singleD[OF m] by (auto simp: combined_columns_def nth_append)
  have im: "index_of ''Month'' ?cols = Some m" by (rule index_of_single[OF m])
  have i0: "index_of ''Month'' forecast_columns = Some 0" by (simp add: forecast_columns_def)
  have keep: "\<And>r. r \<in> set (data (replace_nonfinite comb)) \<Longrightarrow>
               \<not> list_all (\<lambda>j. isna (r j)) [0..<length (columns (replace_nonfinite comb))]"
  proof -
    fix r assume "r \<in> set (data (replace_nonfinite comb))"
    then consider (h) r0 where "r0 \<in> set (data df)"
        "r = (\<lambda>j. sanitize (reindex ?cols ?new (history_row rnd df m r0) j))"
      | (f) q where "q \<in> set (data fdf)" "r = (\<lambda>j. sanitize (reindex forecast_columns ?new q j))"
      by (auto simp: replace_nonfinite_def comb_def)
    then have "\<not> isna (r m)"
    proof cases
      case h
      then show ?thesis using dates mlt newm im by (auto simp: reindex_def history_row_def)
    next
      case f
      then show ?thesis using frows mlt newm i0 by (auto simp: reindex_def)
    qed
    then show "\<not> list_all (\<lambda>j. isna (r j)) [0..<length (columns (replace_nonfinite comb))]"
      using mlt by (auto simp: list_all_iff replace_nonfinite_def comb_def)
  qed
  have dn: "dropna_all (replace_nonfinite comb) = replace_nonfinite comb"
    unfolding dropna_all_def using keep by (simp add: filter_True)
  have "combine rnd df fdf = Inr (to_dict_records (replace_nonfinite comb))"
    unfolding combine_def
    by (simp only: column_single[OF m] and_then.simps Let_def disp_def[symmetric] cc dn)
  also have "to_dict_records (replace_nonfinite comb) =
      map (\<lambda>r. record_of ?cols ?new (history_row rnd df m r)) (data df) @
      map (record_of forecast_columns ?new) (data fdf)"
    by (simp add: to_dict_records_def replace_nonfinite_def comb_def comp_def to_dict_reindex)
  finally show ?thesis .
qed

lemma make_series_single:
  assumes "locs name (columns df) = [j]" and "locs ''Month'' (columns df) = [m]"
  shows "make_series name df = Inr (series_of m j (data df))"
  unfolding make_series_def
  by (simp add: column_single[OF assms(1)] column_single[OF assms(2)] series_of_def comp_def)

lemma make_series_InrD:
  "make_series name df = Inr s \<Longrightarrow>
   \<exists>j m. locs name (columns df) = [j] \<and> locs ''Month'' (columns df) = [m]"
  unfolding make_series_def by (auto simp: and_then_Inr_iff column_Inr)

lemma columns_setitem_present:
  "name \<in> set (columns df) \<Longrightarrow> columns (setitem name vs df) = columns df"
  by (simp add: setitem_def)

lemma combine_InrD:
  assumes "combine rnd df fdf = Inr recs"
  shows "distinct (columns df)"
proof -
  obtain months where c: "column not_one_dimensional ''Month'' df = Inr months"
    and cc: "\<exists>x. concat_frames rnd (setitem ''Month'' (map display_month months) df) fdf = Inr x"
    using assms unfolding combine_def by (auto simp: and_then_Inr_iff Let_def)
  have "''Month'' \<in> set (columns df)" using c locs_singleD by (auto simp: column_Inr)
  then have "columns (setitem ''Month'' (map display_month months) df) = columns df"
    by (rule columns_setitem_present)
  with cc show ?thesis by (auto simp: concat_frames_def split: if_splits)
qed

lemma forecast_cells_float:
  assumes "0 < k" and "k < 7"
  shows "is_float (row_of (forecast_cells rnd d x y) k)"
proof -
  have "k = 1 \<or> k = 2 \<or> k = 3 \<or> k = 4 \<or> k = 5 \<or> k = 6" using assms by arith
  then show ?thesis by (auto simp: row_of_def forecast_cells_def)
qed

lemma forecast_rows_eq:
  assumes m: "locs ''Month'' (columns df) = [m]"
    and i: "locs ''Inflow'' (columns df) = [i]"
    and w: "locs ''Outflow'' (columns df) = [w]"
    and dist: "distinct (columns df)"
    and dates: "\<forall>r \<in> set (data df). \<exists>d. r m = CDate d"
    and ne: "data df \<noteq> []"
    and last: "last (data df) m = CDate d"
    and fi: "safe_forecast env (series_of m i (data df)) = Inr fi"
    and fo: "safe_forecast env (series_of m w (data df)) = Inr fo"
  shows "forecast_rows env df =
         Inr (history_records (nearest_float env) df m @
              forecast_records (nearest_float env) (columns df) d fi fo)"
proof -
  let ?rnd = "nearest_float env"
  let ?fdf = "\<lparr>columns = forecast_columns,
              data = map (\<lambda>k. row_of (forecast_cells ?rnd (date_range_MS (month_begin_next d) 12 ! k)
                                                     (fi ! k) (fo ! k))) [0..<12]\<rparr>"
  have b: "build_forecast_df ?rnd d fi fo = Inr ?fdf"
    by (rule build_forecast_df_eq[OF safe_forecast_length[OF fi] safe_forecast_length[OF fo]])
  have il: "iloc_last (map (\<lambda>r. r m) (data df)) = Inr (CDate d)"
    using ne last by (simp add: iloc_last_def last_map)
  have f1: "columns ?fdf = forecast_columns" by simp
  have f2: "\<forall>q \<in> set (data ?fdf). \<exists>s. q 0 = CStr s"
    by (auto simp: row_of_def forecast_cells_def)
  have f3: "\<forall>q \<in> set (data ?fdf). \<forall>k. 0 < k \<and> k < 7 \<longrightarrow> is_float (q k)"
    by (auto simp: forecast_cells_float simp del: upt_Suc)
  have f4: "data ?fdf \<noteq> []" by simp
  have c: "combine ?rnd df ?fdf = Inr (history_records ?rnd df m @ forecast_records ?rnd (columns df) d fi fo)"
    unfolding combine_eq[OF m dist dates f1 f2 f3 f4]
    by (simp add: history_records_def forecast_records_def comp_def del: upt_Suc)
  show ?thesis
    unfolding forecast_rows_def
    by (simp only: make_series_single[OF i m] make_series_single[OF w m] and_then.simps fi fo
          column_single[OF m] il timestamp_def cell.case b c)
qed

lemma forecast_rows_InrD:
  assumes "forecast_rows env df = Inr recs"
  shows "\<exists>m i w d fi fo.
           locs ''Month'' (columns df) = [m] \<and> locs ''Inflow'' (columns df) = [i] \<and>
           locs ''Outflow'' (columns df) = [w] \<and> distinct (columns df) \<and> data df \<noteq> [] \<and>
           last (data df) m = CDate d \<and>
           safe_forecast env (series_of m i (data df)) = Inr fi \<and>
           safe_forecast env (series_of m w (data df)) = Inr fo"
proof -
  from assms obtain si so fi fo months lc d fdf where
    si: "make_series ''Inflow'' df = Inr si" and so: "make_series ''Outflow'' df = Inr so"
    and fi: "safe_forecast env si = Inr fi" and fo: "safe_forecast env so = Inr fo"
    and mo: "column not_one_dimensional ''Month'' df = Inr months"
    and lc: "iloc_last months = Inr lc" and ts: "timestamp lc = Inr d"
    and co: "combine (nearest_float env) df fdf = Inr recs"
    unfolding forecast_rows_def by (auto simp: and_then_Inr_iff)
  obtain i m where i: "locs ''Inflow'' (columns df) = [i]" and m: "locs ''Month'' (columns df) = [m]"
    using make_series_InrD[OF si] by blast
  obtain w where w: "locs ''Outflow'' (columns df) = [w]"
    using make_series_InrD[OF so] by blast
  have months: "months = map (\<lambda>r. r m) (data df)" using mo m by (simp add: column_Inr)
  have ne: "data df \<noteq> []" using lc months by (auto simp: iloc_last_def split: if_splits)
  have "lc = last (data df) m" using lc months ne by (simp add: iloc_last_def last_map)
  then have last: "last (data df) m = CDate d"
    using ts by (auto simp: timestamp_def split: cell.splits)
  have "si = series_of m i (data df)" "so = series_of m w (data df)"
    using si so make_series_single[OF i m] make_series_single[OF w m] by simp_all
  with fi fo m i w ne last combine_InrD[OF co] show ?thesis by blast
qed

lemma to_datetime_cases: "to_datetime fmt c = CNull \<or> (\<exists>d. to_datetime fmt c = CDate d)"
  by (cases c) (auto split: option.splits)

lemma sort_key_of_CDate: "sort_key_of (CDate d) = (0, date_key d)"
  by (simp add: sort_key_of_def date_key_def)

lemma sorted_filter_map_key:
  assumes "sorted (map K xs)" and "\<And>r. K (N r) = K r"
  shows "sorted (map K (filter Q (map N xs)))"
proof -
  have "map K (filter Q (map N xs)) = map K (filter (Q \<circ> N) xs)"
    by (simp add: filter_map comp_def assms(2))
  then show ?thesis using sorted_filter[OF assms(1)] by simp
qed

lemma dated_rows_dates:
  assumes "r \<in> set (dated_rows env m rows)"
  shows "\<exists>r0 d. r0 \<in> set rows \<and> r = r0(m := CDate d) \<and> to_datetime ''%y-%b'' (r0 m) = CDate d"
proof -
  obtain r0 where r0: "r0 \<in> set rows" "r = r0(m := to_datetime ''%y-%b'' (r0 m))"
    and "\<not> isna (to_datetime ''%y-%b'' (r0 m))"
    using assms by (auto simp: dated_rows_def)
  then show ?thesis using to_datetime_cases[of "''%y-%b''" "r0 m"] by auto
qed

lemma clean_invariants:
  assumes "clean env df0 = Inr df"
  shows "\<exists>m i w. locs ''Month'' (columns df) = [m] \<and> locs ''Inflow'' (columns df) = [i] \<and>
                 locs ''Outflow'' (columns df) = [w] \<and>
                 (\<forall>r \<in> set (data df). \<exists>d. r m = CDate d) \<and>
                 sorted (map (\<lambda>r. sort_key_of (r m)) (data df))"
proof -
  let ?cols = "columns (standardize_columns df0)"
  obtain m i w where m: "locs ''Month'' ?cols = [m]" and i: "locs ''Inflow'' ?cols = [i]"
    and w: "locs ''Outflow'' ?cols = [w]"
    using clean_InrD[OF assms] by blast
  have df: "df = \<lparr>columns = net_columns ?cols, data = cleaned_rows env ?cols m i w (data df0)\<rparr>"
    using assms unfolding clean_single[OF m i w] by simp
  have mi: "m \<noteq> i" and mw: "m \<noteq> w" and mN: "m \<notin> set (locs ''Net_Cashflow'' (net_columns ?cols))"
    using locs_singleD[OF m] locs_singleD[OF i] locs_singleD[OF w]
    by (auto simp: locs_mem net_columns_def nth_append)
  have keep: "\<And>r ii ww. numeric_row env ?cols i w ii ww r m = r m"
    using numeric_row_cells(4)[OF i w, of m] mi mw mN by simp
  have l: "locs ''Month'' (columns df) = [m]" "locs ''Inflow'' (columns df) = [i]"
    "locs ''Outflow'' (columns df) = [w]"
    using m i w by (simp_all add: df locs_net_columns_other)
  have d: "\<forall>r \<in> set (data df). \<exists>d. r m = CDate d"
  proof
    fix r assume "r \<in> set (data df)"
    then obtain r1 ii ww where "r = numeric_row env ?cols i w ii ww r1"
      and "r1 \<in> set (dated_rows env m (data df0))"
      by (auto simp: df cleaned_rows_def numeric_rows_def)
    then show "\<exists>d. r m = CDate d"
      using dated_rows_dates[of r1 env m "data df0"] by (auto simp: keep)
  qed
  have "sorted (map (\<lambda>r. sort_key_of (r m)) (dated_rows env m (data df0)))"
    unfolding dated_rows_def by (rule sorted_sorted_rows)
  then have s: "sorted (map (\<lambda>r. sort_key_of (r m)) (data df))"
    unfolding df cleaned_rows_def numeric_rows_def frame.simps
    by (rule sorted_filter_map_key) (simp add: keep)
  from l d s show ?thesis by blast
qed

lemma forecast_SuccessD:
  assumes "forecast env req = Success n recs"
  shows "\<exists>f df0 df. req = Some f \<and> read_table env f = Some (Inr df0) \<and> clean env df0 = Inr df \<and>
                    n = length (data df) \<and> 3 \<le> n \<and> forecast_rows env df = Inr recs"
proof -
  have b: "forecast_body env req = Inr (Success n recs)"
    using assms by (auto simp: forecast_def split: sum.splits)
  then obtain f where f: "req = Some f" and g: "file_given req"
    by (cases req) (auto simp: forecast_body_def file_given_def split: if_splits)
  from b f g obtain df0 where r: "read_table env f = Some (Inr df0)"
    by (cases "read_table env f") (auto simp: forecast_body_def and_then_Inr_iff)
  from b f g r obtain df where c: "clean env df0 = Inr df"
    by (cases "clean env df0") (auto simp: forecast_body_def and_then_Inr_iff)
  from b f g r c have "3 \<le> length (data df)" "n = length (data df)" "forecast_rows env df = Inr recs"
    by (auto simp: forecast_body_def and_then_Inr_iff split: if_splits)
  with f r c show ?thesis by blast
qed

lemma forecast_success:
  assumes "read_table env f = Some (Inr df0)" and "clean env df0 = Inr df"
    and "3 \<le> length (data df)" and "forecast_rows env df = Inr recs"
  shows "forecast env (Some f) = Success (length (data df)) recs"
  using assms read_table_filename[OF assms(1)]
  by (simp add: forecast_def forecast_body_def file_given_def)

lemma length_history_records [simp]: "length (history_records rnd df m) = length (data df)"
  by (simp add: history_records_def)

lemma length_forecast_records [simp]: "length (forecast_records rnd cols d fi fo) = 12"
  by (simp add: forecast_records_def)

text \<open>The decomposition of a successful answer.\<close>

lemma forecast_Success_records:
  assumes "forecast env req = Success n recs"
  shows "\<exists>f df0 df m i w d fi fo.
           req = Some f \<and> read_table env f = Some (Inr df0) \<and> clean env df0 = Inr df \<and>
           n = length (data df) \<and> 3 \<le> n \<and>
           locs ''Month'' (columns df) = [m] \<and> locs ''Inflow'' (columns df) = [i] \<and>
           locs ''Outflow'' (columns df) = [w] \<and> distinct (columns df) \<and>
           (\<forall>r \<in> set (data df). \<exists>d. r m = CDate d) \<and>
           sorted (map (\<lambda>r. sort_key_of (r m)) (data df)) \<and>
           last (data df) m = CDate d \<and>
           safe_forecast env (series_of m i (data df)) = Inr fi \<and>
           safe_forecast env (series_of m w (data df)) = Inr fo \<and>
           recs = history_records (nearest_float env) df m @
                  forecast_records (nearest_float env) (columns df) d fi fo"
proof -
  obtain f df0 df where f: "req = Some f" "read_table env f = Some (Inr df0)"
    "clean env df0 = Inr df" "n = length (data df)" "3 \<le> n"
    and fr: "forecast_rows env df = Inr recs"
    using forecast_SuccessD[OF assms] by blast
  obtain m i w d fi fo where l: "locs ''Month'' (columns df) = [m]" "locs ''Inflow'' (columns df) = [i]"
    "locs ''Outflow'' (columns df) = [w]" and dist: "distinct (columns df)" and ne: "data df \<noteq> []"
    and last: "last (data df) m = CDate d"
    and fi: "safe_forecast env (series_of m i (data df)) = Inr fi"
    and fo: "safe_forecast env (series_of m w (data df)) = Inr fo"
    using forecast_rows_InrD[OF fr] by blast
  obtain m' where m': "locs ''Month'' (columns df) = [m']"
    and dates': "\<forall>r \<in> set (data df). \<exists>d. r m' = CDate d"
    and sorted': "sorted (map (\<lambda>r. sort_key_of (r m')) (data df))"
    using clean_invariants[OF f(3)] by blast
  have mm: "m' = m" using l(1) m' by simp
  have "recs = history_records (nearest_float env) df m @
               forecast_records (nearest_float env) (columns df) d fi fo"
    using forecast_rows_eq[OF l dist dates'[unfolded mm] ne last fi fo] fr by simp
  with f l dist dates' sorted' last fi fo mm show ?thesis by blast
qed


subsection \<open>Errors of the input\<close>

text \<open>
  C4. A request with no file (none attached, or one without a file name) is answered
  with status 400 and "No file uploaded"; a request whose file name ends with none of
  \<open>.csv\<close>, \<open>.xlsx\<close>, \<open>.xls\<close> is answered with status 400 and "Unsupported file format".
  In both cases nothing is read: no reader is called, and the answer is the same
  whatever the readers \<open>rc\<close> and \<open>rx\<close> would do.
\<close>

theorem input_errors_before_reading:
  "(\<not> file_given req \<longrightarrow>
      forecast (env\<lparr>read_csv := rc, read_excel := rx\<rparr>) req = Failure 400 ''No file uploaded'') \<and>
   (filename f \<noteq> [] \<and> \<not> endswith (filename f) ''.csv'' \<and>
    \<not> endswith (filename f) ''.xlsx'' \<and> \<not> endswith (filename f) ''.xls'' \<longrightarrow>
      read_table (env\<lparr>read_csv := rc, read_excel := rx\<rparr>) f = None \<and>
      forecast (env\<lparr>read_csv := rc, read_excel := rx\<rparr>) (Some f) =
        Failure 400 ''Unsupported file format'')"
  by (simp add: forecast_def forecast_body_def file_given_def read_table_def)

theorem input_errors_before_reading_witness:
  "\<not> file_given (None :: frame upload option) \<and>
   forecast (sample_env\<lparr>read_csv := (\<lambda>c. Inl ''unreadable''), read_excel := (\<lambda>c. Inl ''unreadable'')\<rparr>) None
     = Failure 400 ''No file uploaded'' \<and>
   \<not> endswith ''notes.txt'' ''.csv'' \<and> \<not> endswith ''notes.txt'' ''.xlsx'' \<and>
   \<not> endswith ''notes.txt'' ''.xls'' \<and>
   forecast (sample_env\<lparr>read_csv := (\<lambda>c. Inl ''unreadable''), read_excel := (\<lambda>c. Inl ''unreadable'')\<rparr>)
     (Some \<lparr>filename = ''notes.txt'', content = two_rows\<rparr>) = Failure 400 ''Unsupported file format''"
  using input_errors_before_reading [where req = None and env = sample_env
      and rc = "\<lambda>c. Inl ''unreadable''" and rx = "\<lambda>c. Inl ''unreadable''"
      and f = "\<lparr>filename = ''notes.txt'', content = two_rows\<rparr>"]
  by (simp add: file_given_def endswith_def)

subsection \<open>Too few rows\<close>

text \<open>
  C3. When the table that was read is cleaned to fewer than three rows, the answer is
  status 400 with "Not enough valid rows for forecasting", and no model is fitted: the
  answer is the same whatever the two fits \<open>h\<close> and \<open>s\<close> would do.
\<close>

theorem too_few_rows:
  assumes "read_table env f = Some (Inr df0)"
    and "clean env df0 = Inr df"
    and "length (data df) < 3"
  shows "forecast (env\<lparr>fit_holt := h, fit_ses := s\<rparr>) (Some f) =
         Failure 400 ''Not enough valid rows for forecasting''"
  using assms read_table_filename[OF assms(1)]
  by (simp add: forecast_def forecast_body_def file_given_def)

theorem too_few_rows_witness:
  "read_table sample_env \<lparr>filename = ''cash.csv'', content = two_rows\<rparr> = Some (Inr two_rows) \<and>
   (\<exists>df. clean sample_env two_rows = Inr df \<and> length (data df) < 3) \<and>
   forecast (sample_env\<lparr>fit_holt := (\<lambda>x. Inl ''no fit''), fit_ses := (\<lambda>x. Inl ''no fit'')\<rparr>)
     (Some \<lparr>filename = ''cash.csv'', content = two_rows\<rparr>) =
   Failure 400 ''Not enough valid rows for forecasting''"
proof -
  have r: "read_table sample_env \<lparr>filename = ''cash.csv'', content = two_rows\<rparr> = Some (Inr two_rows)"
    by (simp add: read_table_def endswith_def sample_env_def)
  have "case clean sample_env two_rows of Inl e \<Rightarrow> False | Inr df \<Rightarrow> length (data df) < 3"
    by code_simp
  then obtain df where c: "clean sample_env two_rows = Inr df" and l: "length (data df) < 3"
    by (auto split: sum.splits)
  show ?thesis using r c l too_few_rows [OF r c l] by blast
qed

subsection \<open>Successful requests\<close>

lemma sample_env_forecasts: "s \<noteq> [] \<Longrightarrow> \<exists>xs. safe_forecast sample_env s = Inr xs"
  by (simp add: safe_forecast_def sample_env_def sample_fit_def)

lemma series_of_Nil_iff [simp]: "series_of m j rows = [] \<longleftrightarrow> rows = []"
  by (simp add: series_of_def)

lemma forecast_succeeds:
  assumes r: "read_table env f = Some (Inr df0)" and c: "clean env df0 = Inr df"
    and n: "3 \<le> length (data df)" and dist: "distinct (columns df)"
    and fits: "\<And>s. s \<noteq> [] \<Longrightarrow> \<exists>xs. safe_forecast env s = Inr xs"
  shows "\<exists>recs. forecast env (Some f) = Success (length (data df)) recs"
proof -
  obtain m i w where l: "locs ''Month'' (columns df) = [m]" "locs ''Inflow'' (columns df) = [i]"
    "locs ''Outflow'' (columns df) = [w]" and dates: "\<forall>r \<in> set (data df). \<exists>d. r m = CDate d"
    using clean_invariants[OF c] by blast
  have ne: "data df \<noteq> []" using n by auto
  then obtain d where last: "last (data df) m = CDate d" using dates last_in_set by blast
  obtain fi fo where fi: "safe_forecast env (series_of m i (data df)) = Inr fi"
    and fo: "safe_forecast env (series_of m w (data df)) = Inr fo"
    using fits[of "series_of m i (data df)"] fits[of "series_of m w (data df)"] ne by auto
  show ?thesis
    using forecast_success[OF r c n forecast_rows_eq[OF l dist dates ne last fi fo]] by blast
qed

subsection \<open>Length of the answer\<close>

text \<open>
  C5. In a successful answer the \<open>forecast\<close> list has \<open>rows_received + 12\<close> records,
  where \<open>rows_received\<close> is the number of rows of the cleaned frame, which is at least 3.
\<close>

theorem forecast_length:
  assumes "forecast env req = Success n recs"
  shows "length recs = n + 12 \<and>
         (\<exists>f df0 df. req = Some f \<and> read_table env f = Some (Inr df0) \<and>
                      clean env df0 = Inr df \<and> n = length (data df) \<and> 3 \<le> n)"
proof -
  obtain f df0 df m d fi fo where "req = Some f" "read_table env f = Some (Inr df0)"
    "clean env df0 = Inr df" "n = length (data df)" "3 \<le> n"
    "recs = history_records (nearest_float env) df m @
            forecast_records (nearest_float env) (columns df) d fi fo"
    using forecast_Success_records[OF assms] by blast
  then show ?thesis by auto
qed

theorem forecast_length_witness:
  "\<exists>recs. forecast sample_env (Some \<lparr>filename = ''cash.csv'', content = three_rows\<rparr>) = Success 3 recs \<and>
          length recs = 3 + 12"
proof -
  have r: "read_table sample_env \<lparr>filename = ''cash.csv'', content = three_rows\<rparr> = Some (Inr three_rows)"
    by (simp add: read_table_def endswith_def sample_env_def)
  have "case clean sample_env three_rows of Inl e \<Rightarrow> False
        | Inr df \<Rightarrow> length (data df) = 3 \<and> distinct (columns df)"
    by code_simp
  then obtain df where c: "clean sample_env three_rows = Inr df" and n: "length (data df) = 3"
    and dist: "distinct (columns df)"
    by (auto split: sum.splits)
  obtain recs where s: "forecast sample_env (Some \<lparr>filename = ''cash.csv'', content = three_rows\<rparr>) = Success 3 recs"
    using forecast_succeeds[OF r c _ dist sample_env_forecasts] n by auto
  show ?thesis using s forecast_length[OF s] by auto
qed

subsection \<open>The second date format\<close>

text \<open>
  Line 46 overwrites the \<open>Month\<close> column with the result of the first format, so the
  retry of line 48 parses cells that are already missing: when no month matches the
  first format, no row is left, whatever the months are.
\<close>

lemma fallback_never_recovers:
  assumes "locs ''Month'' (columns df) = [m]"
    and "\<forall>r \<in> set (data df). to_datetime ''%y-%b'' (r m) = CNull"
  shows "\<exists>df'. parse_months env df = Inr df' \<and> data df' = []"
proof -
  have "[r \<leftarrow> map (\<lambda>r. r(m := to_datetime ''%y-%b'' (r m))) (data df). \<not> isna (r m)] = []"
    using assms(2) by (simp add: filter_empty_conv)
  then show ?thesis
    unfolding parse_months_single[OF assms(1)] by (simp add: dated_rows_def sorted_rows_def)
qed

text \<open>
  C1. Every month of \<open>day_first_rows\<close> fails the first format and parses under the
  second one, yet the request is answered "Not enough valid rows for forecasting": all
  three rows are dropped.
\<close>

theorem day_first_months_are_dropped:
  "list_all (\<lambda>s. strptime ''%y-%b'' s = None \<and> strptime ''%d-%b-%y'' s \<noteq> None)
     [''01-Jan-24'', ''01-Feb-24'', ''01-Mar-24''] \<and>
   forecast sample_env (Some \<lparr>filename = ''cash.csv'', content = day_first_rows\<rparr>) =
     Failure 400 ''Not enough valid rows for forecasting''"
  by code_simp

subsection \<open>A fit that fails\<close>

lemma forecast_failure:
  assumes "read_table env f = Some (Inr df0)" and "clean env df0 = Inr df"
    and "3 \<le> length (data df)" and "forecast_rows env df = Inl e"
  shows "forecast env (Some f) = Failure 500 e"
  using assms read_table_filename[OF assms(1)]
  by (simp add: forecast_def forecast_body_def file_given_def)

text \<open>
  C9. For each series: when the additive-trend fit raises, the simple model is fitted to
  the same series and forecast 12 steps ahead. When the simple model raises too, for the
  inflow series or (the inflow forecast being there) for the outflow series, the request
  is answered with status 500 and the text of that exception.
\<close>

theorem model_fit_fallback:
  assumes "read_table env f = Some (Inr df0)" and "clean env df0 = Inr df"
    and "3 \<le> length (data df)"
    and "make_series ''Inflow'' df = Inr si" and "make_series ''Outflow'' df = Inr so"
  shows "(\<forall>s e fit. fit_holt env s = Inl e \<and> fit_ses env s = Inr fit \<longrightarrow>
            safe_forecast env s = Inr (map fit [1..<13])) \<and>
         (\<forall>e e'. fit_holt env si = Inl e \<and> fit_ses env si = Inl e' \<longrightarrow>
            forecast env (Some f) = Failure 500 e') \<and>
         (\<forall>fi e e'. safe_forecast env si = Inr fi \<and> fit_holt env so = Inl e \<and>
                     fit_ses env so = Inl e' \<longrightarrow>
            forecast env (Some f) = Failure 500 e')"
proof (intro conjI allI impI)
  fix s e fit assume "fit_holt env s = Inl e \<and> fit_ses env s = Inr fit"
  then show "safe_forecast env s = Inr (map fit [1..<13])"
    by (simp add: safe_forecast_def forecast_steps_def)
next
  fix e e' assume "fit_holt env si = Inl e \<and> fit_ses env si = Inl e'"
  then have "safe_forecast env si = Inl e'" by (simp add: safe_forecast_def)
  then have "forecast_rows env df = Inl e'"
    using assms(4,5) by (simp add: forecast_rows_def)
  then show "forecast env (Some f) = Failure 500 e'"
    by (rule forecast_failure[OF assms(1-3)])
next
  fix fi e e'
  assume "safe_forecast env si = Inr fi \<and> fit_holt env so = Inl e \<and> fit_ses env so = Inl e'"
  then have "safe_forecast env si = Inr fi" "safe_forecast env so = Inl e'"
    by (simp_all add: safe_forecast_def)
  then have "forecast_rows env df = Inl e'"
    using assms(4,5) by (simp add: forecast_rows_def)
  then show "forecast env (Some f) = Failure 500 e'"
    by (rule forecast_failure[OF assms(1-3)])
qed

lemma clean_make_series:
  assumes "clean env df0 = Inr df"
  shows "\<exists>si so. make_series ''Inflow'' df = Inr si \<and> make_series ''Outflow'' df = Inr so"
proof -
  obtain m i w where "locs ''Month'' (columns df) = [m]" "locs ''Inflow'' (columns df) = [i]"
    "locs ''Outflow'' (columns df) = [w]"
    using clean_invariants[OF assms] by blast
  then show ?thesis using make_series_single by blast
qed

theorem model_fit_fallback_witness:
  "safe_forecast (sample_env\<lparr>fit_holt := (\<lambda>s. Inl ''no convergence'')\<rparr>)
     [(CDate (Date 2024 1 1), CNum (Fin 5))]
     = Inr (map (\<lambda>k. Fin 5) [1..<13]) \<and>
   forecast (sample_env\<lparr>fit_holt := (\<lambda>s. Inl ''no convergence''),
                        fit_ses := (\<lambda>s. Inl ''degenerate series'')\<rparr>)
     (Some \<lparr>filename = ''cash.csv'', content = three_rows\<rparr>) = Failure 500 ''degenerate series''"
proof -
  let ?env = "sample_env\<lparr>fit_holt := (\<lambda>s. Inl ''no convergence''),
                        fit_ses := (\<lambda>s. Inl ''degenerate series'')\<rparr>"
  let ?env1 = "sample_env\<lparr>fit_holt := (\<lambda>s. Inl ''no convergence'')\<rparr>"
  let ?f = "\<lparr>filename = ''cash.csv'', content = three_rows\<rparr>"
  have "case clean sample_env three_rows of Inl e \<Rightarrow> False | Inr df \<Rightarrow> length (data df) = 3"
    by code_simp
  then obtain df where c: "clean sample_env three_rows = Inr df" and n: "3 \<le> length (data df)"
    by (auto split: sum.splits)
  have c2: "clean ?env three_rows = Inr df" and c1: "clean ?env1 three_rows = Inr df"
    using c clean_env[of ?env sample_env three_rows] clean_env[of ?env1 sample_env three_rows]
    by simp_all
  have r2: "read_table ?env ?f = Some (Inr three_rows)" and r1: "read_table ?env1 ?f = Some (Inr three_rows)"
    by (simp_all add: read_table_def endswith_def sample_env_def)
  obtain si so where s: "make_series ''Inflow'' df = Inr si" "make_series ''Outflow'' df = Inr so"
    using clean_make_series[OF c] by blast
  have a: "safe_forecast ?env1 [(CDate (Date 2024 1 1), CNum (Fin 5))] = Inr (map (\<lambda>k. Fin 5) [1..<13])"
    using model_fit_fallback[OF r1 c1 n s]
    by (simp add: sample_env_def sample_fit_def)
  have b: "forecast ?env (Some ?f) = Failure 500 ''degenerate series''"
    using model_fit_fallback[OF r2 c2 n s] by simp
  from a b show ?thesis by simp
qed


end
